theory Spec2Isabelle
  imports Main "HOL-Library.Word"
begin

section \<open>The log of a Raft node (log.go)\<close>

text \<open>
  A shallow embedding of the type \<open>raftLog\<close> of log.go and of its methods. Unsigned
  64-bit integers of the Go code (indices, terms, sizes) are 64-bit words, so
  additions and subtractions wrap around as in Go. A method that mutates its
  receiver takes the log and returns the updated one. A call of \<open>panic\<close> or
  \<open>logger.Panicf\<close> is a value \<open>Inl p\<close> of the result; a Go pair \<open>(value, error)\<close>
  is a sum with the error on the left.
\<close>

subsection \<open>Data\<close>

type_synonym u64 = "64 word"

text \<open>\<open>entryEncodingSize\<close> is a \<open>uint64\<close>; \<open>noLimit\<close> is \<open>math.MaxUint64\<close>.\<close>

type_synonym entryEncodingSize = u64

definition noLimit :: entryEncodingSize where
  "noLimit = - 1"

text \<open>\<open>pb.Entry\<close>: index, term and payload.\<close>

record Entry =
  Index :: u64
  Term :: u64
  Data :: "8 word list"

text \<open>\<open>pb.Snapshot\<close> with the fields \<open>Metadata.Index\<close> and \<open>Metadata.Term\<close>.\<close>

record Snapshot =
  Metadata_Index :: u64
  Metadata_Term :: u64
  Snapshot_Data :: "8 word list"

text \<open>
  The errors a \<open>Storage\<close> can return. \<open>ErrOther\<close> stands for any error that is
  not one of the four named ones.
\<close>

datatype error =
    ErrCompacted
  | ErrUnavailable
  | ErrSnapOutOfDate
  | ErrSnapshotTemporarilyUnavailable
  | ErrOther string

text \<open>The fatal exits of log.go, one constructor for each panic site.\<close>

datatype fatal =
    StorageNil
  | PanicErr error
  | ConflictWithCommitted u64 u64
  | IndexOutOfRange u64 nat
  | AfterOutOfRange u64 u64
  | AppendHigherTerm u64 u64
  | ApplyingSizeNotPositive
  | UnexpectedErrorUnapplied error
  | AppliedOutOfRange u64 u64 u64
  | ApplyingOutOfRange u64 u64 u64
  | UnexpectedErrorLastTerm error
  | EntriesUnavailable u64 u64
  | InvalidSlice u64 u64
  | SliceOutOfBound u64 u64
  | UnexpectedError error
  | RuntimeIndexOutOfRange

text \<open>
  The interface \<open>Storage\<close>: what its five methods answer at the moment of a call.
  The fields are named after the methods, with the prefix \<open>storage_\<close>.
\<close>

record Storage =
  storage_FirstIndex :: "error + u64"
  storage_LastIndex :: "error + u64"
  storage_Term :: "u64 \<Rightarrow> error + u64"
  storage_Entries :: "u64 \<Rightarrow> u64 \<Rightarrow> u64 \<Rightarrow> error + Entry list"
  storage_Snapshot :: "error + Snapshot"

subsection \<open>The unstable buffer\<close>

text \<open>
  Modelled from the spec: the struct \<open>unstable\<close> and its methods live in
  log_unstable.go, which is not part of the source at hand. The definitions of
  this subsection follow section 3 and section 4.1 of the specification.
\<close>

record unstable =
  snapshot :: "Snapshot option"
  entries :: "Entry list"
  offset :: u64
  snapshotInProgress :: bool
  offsetInProgress :: u64

text \<open>
  Modelled from the spec: \<open>maybeFirstIndex\<close> returns \<open>snapshot.lastIncludedIndex + 1\<close>
  if a snapshot is present, else none.
\<close>

definition maybeFirstIndex :: "unstable \<Rightarrow> u64 option" where
  "maybeFirstIndex u =
     (case snapshot u of
        Some s \<Rightarrow> Some (Metadata_Index s + 1)
      | None \<Rightarrow> None)"

text \<open>
  Modelled from the spec: \<open>maybeLastIndex\<close> returns the last index across entries
  and snapshot, or none if both are absent.
\<close>

definition maybeLastIndex :: "unstable \<Rightarrow> u64 option" where
  "maybeLastIndex u =
     (if entries u \<noteq> [] then Some (offset u + of_nat (length (entries u)) - 1)
      else case snapshot u of
             Some s \<Rightarrow> Some (Metadata_Index s)
           | None \<Rightarrow> None)"

text \<open>
  Modelled from the spec: \<open>maybeTerm(i)\<close> returns \<open>entries[i-offset].term\<close> if in
  range; \<open>snapshot.lastIncludedTerm\<close> if \<open>i == snapshot.lastIncludedIndex\<close>; else
  none.
\<close>

definition maybeTerm :: "unstable \<Rightarrow> u64 \<Rightarrow> u64 option" where
  "maybeTerm u i =
     (if offset u \<le> i \<and> unat (i - offset u) < length (entries u)
      then Some (Term (entries u ! unat (i - offset u)))
      else case snapshot u of
             Some s \<Rightarrow> if i = Metadata_Index s then Some (Metadata_Term s) else None
           | None \<Rightarrow> None)"

text \<open>
  Modelled from the spec: \<open>nextEntries()\<close> returns
  \<open>entries[offsetInProgress-offset ..]\<close> (may be empty).
\<close>

definition nextEntries :: "unstable \<Rightarrow> Entry list" where
  "nextEntries u = drop (unat (offsetInProgress u - offset u)) (entries u)"

text \<open>
  Modelled from the spec: \<open>nextSnapshot()\<close> returns \<open>snapshot\<close> iff present and not
  in progress.
\<close>

definition nextSnapshot :: "unstable \<Rightarrow> Snapshot option" where
  "nextSnapshot u = (if snapshotInProgress u then None else snapshot u)"

text \<open>
  Modelled from the spec: \<open>acceptInProgress()\<close> sets
  \<open>offsetInProgress := offset + len(entries)\<close> and
  \<open>snapshotInProgress := snapshot.is_some()\<close>.
\<close>

definition acceptInProgress :: "unstable \<Rightarrow> unstable" where
  "acceptInProgress u =
     u\<lparr>offsetInProgress := offset u + of_nat (length (entries u)),
       snapshotInProgress := (snapshot u \<noteq> None)\<rparr>"

text \<open>
  Modelled from the spec: \<open>stableTo(i, t)\<close>: if \<open>i < offset\<close> or
  \<open>i > offset + len(entries) - 1\<close> or \<open>entries[i-offset].term \<noteq> t\<close>, ignore.
  Otherwise, if a snapshot exists and \<open>i \<ge> snapshot.lastIncludedIndex\<close>, drop the
  snapshot. Then remove the prefix of \<open>entries\<close> through index \<open>i\<close>, with
  \<open>offset := i+1\<close> and \<open>offsetInProgress := max(offsetInProgress, i+1)\<close>.
\<close>

definition unstable_stableTo :: "unstable \<Rightarrow> u64 \<Rightarrow> u64 \<Rightarrow> unstable" where
  "unstable_stableTo u i t =
     (if i < offset u \<or> length (entries u) \<le> unat (i - offset u)
         \<or> Term (entries u ! unat (i - offset u)) \<noteq> t
      then u
      else u\<lparr>snapshot :=
                (case snapshot u of
                   Some s \<Rightarrow> if Metadata_Index s \<le> i then None else Some s
                 | None \<Rightarrow> None),
              entries := drop (unat (i - offset u) + 1) (entries u),
              offset := i + 1,
              offsetInProgress := max (offsetInProgress u) (i + 1)\<rparr>)"

text \<open>
  Modelled from the spec: \<open>stableSnapTo(i)\<close>: if \<open>snapshot.lastIncludedIndex == i\<close>,
  drop the snapshot and clear \<open>snapshotInProgress\<close>.
\<close>

definition unstable_stableSnapTo :: "unstable \<Rightarrow> u64 \<Rightarrow> unstable" where
  "unstable_stableSnapTo u i =
     (case snapshot u of
        Some s \<Rightarrow>
          if Metadata_Index s = i
          then u\<lparr>snapshot := None, snapshotInProgress := False\<rparr>
          else u
      | None \<Rightarrow> u)"

text \<open>
  Modelled from the spec: \<open>restore(s)\<close> replaces the state with \<open>entries := []\<close>,
  \<open>offset := offsetInProgress := s.lastIncludedIndex + 1\<close>, \<open>snapshot := some(s)\<close>,
  \<open>snapshotInProgress := false\<close>.
\<close>

definition unstable_restore :: "unstable \<Rightarrow> Snapshot \<Rightarrow> unstable" where
  "unstable_restore u s =
     u\<lparr>snapshot := Some s,
       entries := [],
       offset := Metadata_Index s + 1,
       snapshotInProgress := False,
       offsetInProgress := Metadata_Index s + 1\<rparr>"

text \<open>
  Modelled from the spec: \<open>truncateAndAppend(ents)\<close>: let \<open>after := ents[0].index\<close>.
  If \<open>after == offset + len(entries)\<close>, extend. If \<open>after \<le> offset\<close>, replace: drop
  all entries, \<open>offset := after\<close>, new entries. Else truncate \<open>entries\<close> to
  \<open>[offset, after)\<close> then extend. \<open>offsetInProgress := min(offsetInProgress, after)\<close>.
  Reading \<open>ents[0]\<close> of an empty slice is a runtime panic in Go.
\<close>

definition truncateAndAppend :: "unstable \<Rightarrow> Entry list \<Rightarrow> fatal + unstable" where
  "truncateAndAppend u ents =
     (case ents of
        [] \<Rightarrow> Inl RuntimeIndexOutOfRange
      | e # _ \<Rightarrow>
          let after = Index e;
              oip = min (offsetInProgress u) after
          in if after = offset u + of_nat (length (entries u))
             then Inr (u\<lparr>entries := entries u @ ents, offsetInProgress := oip\<rparr>)
             else if after \<le> offset u
             then Inr (u\<lparr>entries := ents, offset := after, offsetInProgress := oip\<rparr>)
             else Inr (u\<lparr>entries := take (unat (after - offset u)) (entries u) @ ents,
                          offsetInProgress := oip\<rparr>))"

text \<open>
  Modelled from the spec: \<open>slice(lo, hi)\<close> is the direct view
  \<open>entries[lo-offset .. hi-offset]\<close>.
\<close>

definition unstable_slice :: "unstable \<Rightarrow> u64 \<Rightarrow> u64 \<Rightarrow> Entry list" where
  "unstable_slice u lo hi =
     take (unat (hi - offset u) - unat (lo - offset u))
       (drop (unat (lo - offset u)) (entries u))"

subsection \<open>The log\<close>

text \<open>
  The struct \<open>raftLog\<close>. The field \<open>logger\<close> is left out: logging has no effect on
  the log, and \<open>logger.Panicf\<close> is the fatal exit of the result.
\<close>

record raftLog =
  storage :: Storage
  unstable :: unstable
  leaderTerm :: u64
  committed :: u64
  applying :: u64
  applied :: u64
  maxApplyingEntsSize :: entryEncodingSize
  applyingEntsSize :: entryEncodingSize
  applyingEntsPaused :: bool

subsection \<open>Helpers of util.go\<close>

text \<open>
  The encoded size of an entry, \<open>pb.Entry.Size()\<close>, is generated protobuf code
  outside the source at hand: the functions that need it take it as the
  parameter \<open>sz\<close>. The helpers \<open>entsSize\<close>, \<open>limitSize\<close> and \<open>extend\<close> live in util.go,
  which is not part of the source at hand either.
\<close>

text \<open>
  Modelled from the spec: \<open>entsSize\<close> is the total size of a slice of entries
  (section 4.3.5: \<open>size(storageEnts)\<close>).
\<close>

definition entsSize :: "(Entry \<Rightarrow> u64) \<Rightarrow> Entry list \<Rightarrow> entryEncodingSize" where
  "entsSize sz ents = sum_list (map sz ents)"

text \<open>
  Modelled from the spec: \<open>limitSize\<close> returns the byte-bounded prefix of a slice
  (section 4.3.5). The first entry is kept even when it alone exceeds the limit
  (log.go, in \<open>slice\<close>: the total size may exceed the limit only if one entry is
  returned); \<open>limitSizeFrom\<close> is its loop over the rest of the slice.
\<close>

fun limitSizeFrom ::
  "(Entry \<Rightarrow> u64) \<Rightarrow> entryEncodingSize \<Rightarrow> entryEncodingSize \<Rightarrow> Entry list \<Rightarrow> Entry list"
where
  "limitSizeFrom sz maxSize acc [] = []"
| "limitSizeFrom sz maxSize acc (e # es) =
     (if acc + sz e > maxSize then []
      else e # limitSizeFrom sz maxSize (acc + sz e) es)"

text \<open>
  Modelled from the spec: \<open>limitSize\<close> itself, which keeps the first entry and
  runs the loop from its size.
\<close>

definition limitSize :: "(Entry \<Rightarrow> u64) \<Rightarrow> Entry list \<Rightarrow> entryEncodingSize \<Rightarrow> Entry list" where
  "limitSize sz ents maxSize =
     (case ents of
        [] \<Rightarrow> []
      | e # es \<Rightarrow> e # limitSizeFrom sz maxSize (sz e) es)"

text \<open>
  Modelled from the spec: \<open>extend\<close> concatenates the unstable entries to the stored
  ones (section 4.3.5, step 4).
\<close>

definition extend :: "Entry list \<Rightarrow> Entry list \<Rightarrow> Entry list" where
  "extend dst vals = dst @ vals"

subsection \<open>Reading the log\<close>

text \<open>\<open>hasNextOrInProgressSnapshot\<close>: \<open>l.unstable.snapshot != nil\<close>.\<close>

definition hasNextOrInProgressSnapshot :: "raftLog \<Rightarrow> bool" where
  "hasNextOrInProgressSnapshot l = (snapshot (unstable l) \<noteq> None)"

text \<open>\<open>firstIndex\<close> and \<open>lastIndex\<close> panic on an error of the storage.\<close>

definition firstIndex :: "raftLog \<Rightarrow> fatal + u64" where
  "firstIndex l =
     (case maybeFirstIndex (unstable l) of
        Some i \<Rightarrow> Inr i
      | None \<Rightarrow>
          (case storage_FirstIndex (storage l) of
             Inl err \<Rightarrow> Inl (PanicErr err)
           | Inr index \<Rightarrow> Inr index))"

definition lastIndex :: "raftLog \<Rightarrow> fatal + u64" where
  "lastIndex l =
     (case maybeLastIndex (unstable l) of
        Some i \<Rightarrow> Inr i
      | None \<Rightarrow>
          (case storage_LastIndex (storage l) of
             Inl err \<Rightarrow> Inl (PanicErr err)
           | Inr i \<Rightarrow> Inr i))"

text \<open>
  \<open>term(i)\<close>: the unstable log first, then the range check against
  \<open>[firstIndex-1, lastIndex]\<close>, then the storage. The result is a panic, or the
  Go pair \<open>(term, error)\<close>.
\<close>

definition raftLog_term :: "raftLog \<Rightarrow> u64 \<Rightarrow> fatal + (error + u64)" where
  "raftLog_term l i =
     (case maybeTerm (unstable l) i of
        Some t \<Rightarrow> Inr (Inr t)
      | None \<Rightarrow>
          (case firstIndex l of
             Inl p \<Rightarrow> Inl p
           | Inr fi \<Rightarrow>
               if i + 1 < fi then Inr (Inl ErrCompacted)
               else
                 (case lastIndex l of
                    Inl p \<Rightarrow> Inl p
                  | Inr li \<Rightarrow>
                      if i > li then Inr (Inl ErrUnavailable)
                      else
                        (case storage_Term (storage l) i of
                           Inr t \<Rightarrow> Inr (Inr t)
                         | Inl err \<Rightarrow>
                             if err = ErrCompacted \<or> err = ErrUnavailable
                             then Inr (Inl err)
                             else Inl (PanicErr err)))))"

definition zeroTermOnOutOfBounds :: "error + u64 \<Rightarrow> fatal + u64" where
  "zeroTermOnOutOfBounds r =
     (case r of
        Inr t \<Rightarrow> Inr t
      | Inl err \<Rightarrow>
          if err = ErrCompacted \<or> err = ErrUnavailable then Inr 0
          else Inl (UnexpectedError err))"

definition matchTerm :: "raftLog \<Rightarrow> u64 \<Rightarrow> u64 \<Rightarrow> fatal + bool" where
  "matchTerm l i t =
     (case raftLog_term l i of
        Inl p \<Rightarrow> Inl p
      | Inr (Inl err) \<Rightarrow> Inr False
      | Inr (Inr t') \<Rightarrow> Inr (t' = t))"

definition lastTerm :: "raftLog \<Rightarrow> fatal + u64" where
  "lastTerm l =
     (case lastIndex l of
        Inl p \<Rightarrow> Inl p
      | Inr li \<Rightarrow>
          (case raftLog_term l li of
             Inl p \<Rightarrow> Inl p
           | Inr (Inl err) \<Rightarrow> Inl (UnexpectedErrorLastTerm err)
           | Inr (Inr t) \<Rightarrow> Inr t))"

text \<open>
  \<open>findConflict\<close>: the loop over \<open>ents\<close> is a recursion on the list. The log line
  of a conflict inside the log evaluates \<open>lastIndex\<close>, \<open>term\<close> and
  \<open>zeroTermOnOutOfBounds\<close>, each of which can panic.
\<close>

fun findConflict :: "raftLog \<Rightarrow> Entry list \<Rightarrow> fatal + u64" where
  "findConflict l [] = Inr 0"
| "findConflict l (ne # ents) =
     (case matchTerm l (Index ne) (Term ne) of
        Inl p \<Rightarrow> Inl p
      | Inr True \<Rightarrow> findConflict l ents
      | Inr False \<Rightarrow>
          (case lastIndex l of
             Inl p \<Rightarrow> Inl p
           | Inr li \<Rightarrow>
               if Index ne \<le> li
               then (case raftLog_term l (Index ne) of
                       Inl p \<Rightarrow> Inl p
                     | Inr r \<Rightarrow>
                         (case zeroTermOnOutOfBounds r of
                            Inl p \<Rightarrow> Inl p
                          | Inr existing \<Rightarrow> Inr (Index ne)))
               else Inr (Index ne)))"

text \<open>
  \<open>findConflictByTerm\<close>: the loop \<open>for ; index > 0; index--\<close> is a recursion
  that ends because the index decreases.
\<close>

function findConflictByTerm :: "raftLog \<Rightarrow> u64 \<Rightarrow> u64 \<Rightarrow> fatal + (u64 \<times> u64)" where
  "findConflictByTerm l index t =
     (if index > 0
      then (case raftLog_term l index of
              Inl p \<Rightarrow> Inl p
            | Inr (Inl err) \<Rightarrow> Inr (index, 0)
            | Inr (Inr ourTerm) \<Rightarrow>
                if ourTerm \<le> t then Inr (index, ourTerm)
                else findConflictByTerm l (index - 1) t)
      else Inr (0, 0))"
  by pat_completeness auto
termination
  by (relation "measure (\<lambda>(l, index, t). unat index)")
     (auto simp: word_greater_zero_iff unat_minus_one unat_gt_0)

declare findConflictByTerm.simps [simp del]

subsection \<open>Construction\<close>

text \<open>
  \<open>newLogWithSize\<close>: a nil storage is \<open>None\<close>. Fields that the composite literal
  leaves out have Go's zero value.
\<close>

definition newLogWithSize :: "Storage option \<Rightarrow> entryEncodingSize \<Rightarrow> fatal + raftLog" where
  "newLogWithSize st maxSize =
     (case st of
        None \<Rightarrow> Inl StorageNil
      | Some sto \<Rightarrow>
          (case storage_FirstIndex sto of
             Inl err \<Rightarrow> Inl (PanicErr err)
           | Inr fi \<Rightarrow>
               (case storage_LastIndex sto of
                  Inl err \<Rightarrow> Inl (PanicErr err)
                | Inr li \<Rightarrow>
                    (case storage_Term sto li of
                       Inl err \<Rightarrow> Inl (PanicErr err)
                     | Inr lastT \<Rightarrow>
                         Inr \<lparr>storage = sto,
                              unstable = \<lparr>snapshot = None, entries = [], offset = li + 1,
                                          snapshotInProgress = False,
                                          offsetInProgress = li + 1\<rparr>,
                              leaderTerm = lastT,
                              committed = fi - 1,
                              applying = fi - 1,
                              applied = fi - 1,
                              maxApplyingEntsSize = maxSize,
                              applyingEntsSize = 0,
                              applyingEntsPaused = False\<rparr>))))"

definition newLog :: "Storage option \<Rightarrow> fatal + raftLog" where
  "newLog st = newLogWithSize st noLimit"

subsection \<open>Commit and apply cursors\<close>

definition commitTo :: "raftLog \<Rightarrow> u64 \<Rightarrow> u64 \<Rightarrow> fatal + raftLog" where
  "commitTo l lt tocommit =
     (if lt \<noteq> leaderTerm l then Inr l
      else
        (case lastIndex l of
           Inl p \<Rightarrow> Inl p
         | Inr li \<Rightarrow>
             let tocommit' = min tocommit li
             in if tocommit' > committed l then Inr (l\<lparr>committed := tocommit'\<rparr>)
                else Inr l))"

definition appliedTo :: "raftLog \<Rightarrow> u64 \<Rightarrow> entryEncodingSize \<Rightarrow> fatal + raftLog" where
  "appliedTo l i size' =
     (if committed l < i \<or> i < applied l
      then Inl (AppliedOutOfRange i (applied l) (committed l))
      else
        let newSize = (if applyingEntsSize l > size' then applyingEntsSize l - size' else 0)
        in Inr (l\<lparr>applied := i,
                  applying := max (applying l) i,
                  applyingEntsSize := newSize,
                  applyingEntsPaused := (newSize \<ge> maxApplyingEntsSize l)\<rparr>))"

definition maxAppliableIndex :: "raftLog \<Rightarrow> bool \<Rightarrow> u64" where
  "maxAppliableIndex l allowUnstable =
     (let hi = committed l
      in if \<not> allowUnstable then min hi (offset (unstable l) - 1) else hi)"

definition acceptApplying ::
  "raftLog \<Rightarrow> u64 \<Rightarrow> entryEncodingSize \<Rightarrow> bool \<Rightarrow> fatal + raftLog"
where
  "acceptApplying l i size' allowUnstable =
     (if committed l < i
      then Inl (ApplyingOutOfRange i (applying l) (committed l))
      else
        let l1 = l\<lparr>applying := i, applyingEntsSize := applyingEntsSize l + size'\<rparr>
        in Inr (l1\<lparr>applyingEntsPaused :=
                       (applyingEntsSize l1 \<ge> maxApplyingEntsSize l1
                        \<or> i < maxAppliableIndex l1 allowUnstable)\<rparr>))"

definition stableTo :: "raftLog \<Rightarrow> u64 \<Rightarrow> u64 \<Rightarrow> raftLog" where
  "stableTo l i t = l\<lparr>unstable := unstable_stableTo (unstable l) i t\<rparr>"

definition stableSnapTo :: "raftLog \<Rightarrow> u64 \<Rightarrow> raftLog" where
  "stableSnapTo l i = l\<lparr>unstable := unstable_stableSnapTo (unstable l) i\<rparr>"

definition acceptUnstable :: "raftLog \<Rightarrow> raftLog" where
  "acceptUnstable l = l\<lparr>unstable := acceptInProgress (unstable l)\<rparr>"

text \<open>
  \<open>maybeCommit\<close>: Go's \<open>&&\<close> evaluates \<open>l.term(maxIndex)\<close> only when the first two
  conjuncts hold.
\<close>

definition maybeCommit :: "raftLog \<Rightarrow> u64 \<Rightarrow> u64 \<Rightarrow> u64 \<Rightarrow> fatal + (raftLog \<times> bool)" where
  "maybeCommit l lt maxIndex t =
     (if maxIndex > committed l \<and> t \<noteq> 0
      then (case raftLog_term l maxIndex of
              Inl p \<Rightarrow> Inl p
            | Inr r \<Rightarrow>
                (case zeroTermOnOutOfBounds r of
                   Inl p \<Rightarrow> Inl p
                 | Inr t' \<Rightarrow>
                     if t' = t
                     then (case commitTo l lt maxIndex of
                             Inl p \<Rightarrow> Inl p
                           | Inr l' \<Rightarrow> Inr (l', True))
                     else Inr (l, False)))
      else Inr (l, False))"

definition restore :: "raftLog \<Rightarrow> Snapshot \<Rightarrow> raftLog" where
  "restore l s =
     l\<lparr>committed := Metadata_Index s,
       unstable := unstable_restore (unstable l) s\<rparr>"

subsection \<open>Appending\<close>

text \<open>\<open>append\<close> returns the updated log and the new last index.\<close>

definition raftLog_append :: "raftLog \<Rightarrow> u64 \<Rightarrow> Entry list \<Rightarrow> fatal + (raftLog \<times> u64)" where
  "raftLog_append l lt ents =
     (if lt < leaderTerm l
      then (case lastIndex l of Inl p \<Rightarrow> Inl p | Inr li \<Rightarrow> Inr (l, li))
      else if ents = []
      then (case lastIndex l of Inl p \<Rightarrow> Inl p | Inr li \<Rightarrow> Inr (l, li))
      else if Index (hd ents) - 1 < committed l
      then Inl (AfterOutOfRange (Index (hd ents) - 1) (committed l))
      else if Term (last ents) > lt
      then Inl (AppendHigherTerm lt (Term (last ents)))
      else
        (case truncateAndAppend (unstable l) ents of
           Inl p \<Rightarrow> Inl p
         | Inr u \<Rightarrow>
             let l' = l\<lparr>leaderTerm := lt, unstable := u\<rparr>
             in (case lastIndex l' of Inl p \<Rightarrow> Inl p | Inr li \<Rightarrow> Inr (l', li))))"

text \<open>
  \<open>maybeAppend\<close> returns the updated log with the pair \<open>(lastnewi, ok)\<close>. The
  parameter \<open>committed\<close> of the Go method is \<open>commit\<close> here.
\<close>

definition maybeAppend ::
  "raftLog \<Rightarrow> u64 \<Rightarrow> u64 \<Rightarrow> u64 \<Rightarrow> u64 \<Rightarrow> Entry list \<Rightarrow> fatal + (raftLog \<times> u64 \<times> bool)"
where
  "maybeAppend l lt prevIndex prevTerm commit ents =
     (if lt < leaderTerm l then Inr (l, 0, False)
      else
        (case matchTerm l prevIndex prevTerm of
           Inl p \<Rightarrow> Inl p
         | Inr False \<Rightarrow> Inr (l, 0, False)
         | Inr True \<Rightarrow>
             let lastnewi = prevIndex + of_nat (length ents)
             in (case findConflict l ents of
                   Inl p \<Rightarrow> Inl p
                 | Inr ci \<Rightarrow>
                     (case (if ci = 0 then Inr l
                            else if ci \<le> committed l
                            then Inl (ConflictWithCommitted ci (committed l))
                            else
                              let off = prevIndex + 1
                              in if ci - off > of_nat (length ents)
                                 then Inl (IndexOutOfRange (ci - off) (length ents))
                                 else (case raftLog_append l lt (drop (unat (ci - off)) ents) of
                                         Inl p \<Rightarrow> Inl p
                                       | Inr (l', li) \<Rightarrow> Inr l'))
                      of
                        Inl p \<Rightarrow> Inl p
                      | Inr l1 \<Rightarrow>
                          (case commitTo l1 lt (min commit lastnewi) of
                             Inl p \<Rightarrow> Inl p
                           | Inr l2 \<Rightarrow> Inr (l2, lastnewi, True))))))"

subsection \<open>Range queries\<close>

text \<open>\<open>mustCheckOutOfBounds\<close> returns a panic, or the optional error.\<close>

definition mustCheckOutOfBounds :: "raftLog \<Rightarrow> u64 \<Rightarrow> u64 \<Rightarrow> fatal + error option" where
  "mustCheckOutOfBounds l lo hi =
     (if lo > hi then Inl (InvalidSlice lo hi)
      else
        (case firstIndex l of
           Inl p \<Rightarrow> Inl p
         | Inr fi \<Rightarrow>
             if lo < fi then Inr (Some ErrCompacted)
             else
               (case lastIndex l of
                  Inl p \<Rightarrow> Inl p
                | Inr li \<Rightarrow>
                    let len = li + 1 - fi
                    in if hi > fi + len then Inl (SliceOutOfBound lo hi)
                       else Inr None)))"

definition slice ::
  "(Entry \<Rightarrow> u64) \<Rightarrow> raftLog \<Rightarrow> u64 \<Rightarrow> u64 \<Rightarrow> entryEncodingSize \<Rightarrow> fatal + (error + Entry list)"
where
  "slice sz l lo hi maxSize =
     (case mustCheckOutOfBounds l lo hi of
        Inl p \<Rightarrow> Inl p
      | Inr (Some err) \<Rightarrow> Inr (Inl err)
      | Inr None \<Rightarrow>
          if lo = hi then Inr (Inr [])
          else if lo \<ge> offset (unstable l)
          then Inr (Inr (limitSize sz (unstable_slice (unstable l) lo hi) maxSize))
          else
            let cut = min hi (offset (unstable l))
            in (case storage_Entries (storage l) lo cut maxSize of
                  Inl err \<Rightarrow>
                    if err = ErrCompacted then Inr (Inl err)
                    else if err = ErrUnavailable then Inl (EntriesUnavailable lo cut)
                    else Inl (PanicErr err)
                | Inr ents \<Rightarrow>
                    if hi \<le> offset (unstable l) then Inr (Inr ents)
                    else if of_nat (length ents) < cut - lo then Inr (Inr ents)
                    else
                      let total = entsSize sz ents
                      in if total \<ge> maxSize then Inr (Inr ents)
                         else
                           let us = limitSize sz
                                      (unstable_slice (unstable l) (offset (unstable l)) hi)
                                      (maxSize - total)
                           in if length us = 1 \<and> total + entsSize sz us > maxSize
                              then Inr (Inr ents)
                              else Inr (Inr (extend ents us))))"

definition raftLog_entries ::
  "(Entry \<Rightarrow> u64) \<Rightarrow> raftLog \<Rightarrow> u64 \<Rightarrow> entryEncodingSize \<Rightarrow> fatal + (error + Entry list)"
where
  "raftLog_entries sz l i maxSize =
     (case lastIndex l of
        Inl p \<Rightarrow> Inl p
      | Inr li \<Rightarrow>
          if i > li then Inr (Inr [])
          else slice sz l i (li + 1) maxSize)"

subsection \<open>Delivery of committed entries\<close>

definition nextCommittedEnts :: "(Entry \<Rightarrow> u64) \<Rightarrow> raftLog \<Rightarrow> bool \<Rightarrow> fatal + Entry list" where
  "nextCommittedEnts sz l allowUnstable =
     (if applyingEntsPaused l then Inr []
      else if hasNextOrInProgressSnapshot l then Inr []
      else
        let lo = applying l + 1;
            hi = maxAppliableIndex l allowUnstable + 1
        in if lo \<ge> hi then Inr []
           else
             let maxSize = maxApplyingEntsSize l - applyingEntsSize l
             in if maxSize \<le> 0 then Inl ApplyingSizeNotPositive
                else (case slice sz l lo hi maxSize of
                        Inl p \<Rightarrow> Inl p
                      | Inr (Inl err) \<Rightarrow> Inl (UnexpectedErrorUnapplied err)
                      | Inr (Inr ents) \<Rightarrow> Inr ents))"

definition nextUnstableEnts :: "raftLog \<Rightarrow> Entry list" where
  "nextUnstableEnts l = nextEntries (unstable l)"

definition hasNextUnstableEnts :: "raftLog \<Rightarrow> bool" where
  "hasNextUnstableEnts l = (length (nextUnstableEnts l) > 0)"

definition hasNextOrInProgressUnstableEnts :: "raftLog \<Rightarrow> bool" where
  "hasNextOrInProgressUnstableEnts l = (length (entries (unstable l)) > 0)"

definition nextUnstableSnapshot :: "raftLog \<Rightarrow> Snapshot option" where
  "nextUnstableSnapshot l = nextSnapshot (unstable l)"

definition hasNextUnstableSnapshot :: "raftLog \<Rightarrow> bool" where
  "hasNextUnstableSnapshot l = (nextSnapshot (unstable l) \<noteq> None)"

definition raftLog_snapshot :: "raftLog \<Rightarrow> error + Snapshot" where
  "raftLog_snapshot l =
     (case snapshot (unstable l) of
        Some s \<Rightarrow> Inr s
      | None \<Rightarrow> storage_Snapshot (storage l))"

text \<open>
  \<open>isUpToDate\<close>: Go's \<open>||\<close> and \<open>&&\<close> evaluate \<open>lastIndex()\<close> only when the terms are
  equal.
\<close>

definition isUpToDate :: "raftLog \<Rightarrow> u64 \<Rightarrow> u64 \<Rightarrow> fatal + bool" where
  "isUpToDate l lasti t =
     (case lastTerm l of
        Inl p \<Rightarrow> Inl p
      | Inr lastT \<Rightarrow>
          if t > lastT then Inr True
          else if t = lastT
          then (case lastIndex l of Inl p \<Rightarrow> Inl p | Inr li \<Rightarrow> Inr (lasti \<ge> li))
          else Inr False)"

definition hasNextCommittedEnts :: "raftLog \<Rightarrow> bool \<Rightarrow> bool" where
  "hasNextCommittedEnts l allowUnstable =
     (if applyingEntsPaused l then False
      else if hasNextOrInProgressSnapshot l then False
      else applying l + 1 < maxAppliableIndex l allowUnstable + 1)"

subsection \<open>Concrete logs for the examples\<close>

text \<open>
  An entry without payload, and a storage that was never compacted and holds the
  given entries at the indices \<open>1, 2, ...\<close>: the term of index 0 is 0, as for the
  dummy entry of an empty log. Sizes in the examples count the payload bytes.
\<close>

definition ent :: "u64 \<Rightarrow> u64 \<Rightarrow> Entry" where
  "ent i t = \<lparr>Index = i, Term = t, Data = []\<rparr>"

definition exampleSize :: "Entry \<Rightarrow> u64" where
  "exampleSize e = of_nat (length (Data e))"

definition exampleStorage :: "Entry list \<Rightarrow> Storage" where
  "exampleStorage ents =
     \<lparr>storage_FirstIndex = Inr 1,
      storage_LastIndex = Inr (of_nat (length ents)),
      storage_Term =
        (\<lambda>i. if i = 0 then Inr 0
             else if unat i \<le> length ents then Inr (Term (ents ! (unat i - 1)))
             else Inl ErrUnavailable),
      storage_Entries =
        (\<lambda>lo hi maxSize.
           if lo < 1 then Inl ErrCompacted
           else if length ents + 1 < unat hi then Inl ErrUnavailable
           else Inr (limitSize exampleSize
                       (take (unat hi - unat lo) (drop (unat lo - 1) ents)) maxSize)),
      storage_Snapshot =
        Inr \<lparr>Metadata_Index = 0, Metadata_Term = 0, Snapshot_Data = []\<rparr>\<rparr>"

text \<open>
  The same storage with a method that fails: \<open>Term\<close> answers the given error at
  every index, or \<open>LastIndex\<close> answers the given error.
\<close>

definition termFailing :: "Entry list \<Rightarrow> error \<Rightarrow> Storage" where
  "termFailing ents err = (exampleStorage ents)\<lparr>storage_Term := (\<lambda>i. Inl err)\<rparr>"

definition lastIndexFailing :: "Entry list \<Rightarrow> error \<Rightarrow> Storage" where
  "lastIndexFailing ents err = (exampleStorage ents)\<lparr>storage_LastIndex := Inl err\<rparr>"

text \<open>
  A log over that storage with nothing unstable, with the given \<open>leaderTerm\<close> and
  the three cursors at the given index.
\<close>

definition exampleLog :: "Entry list \<Rightarrow> u64 \<Rightarrow> u64 \<Rightarrow> raftLog" where
  "exampleLog ents lt c =
     \<lparr>storage = exampleStorage ents,
      unstable = \<lparr>snapshot = None, entries = [],
                  offset = of_nat (length ents) + 1,
                  snapshotInProgress = False,
                  offsetInProgress = of_nat (length ents) + 1\<rparr>,
      leaderTerm = lt,
      committed = c,
      applying = c,
      applied = c,
      maxApplyingEntsSize = noLimit,
      applyingEntsSize = 0,
      applyingEntsPaused = False\<rparr>"

subsection \<open>Invariants and preconditions\<close>

text \<open>
  The chain of cursors that the specification lists as a global invariant:
  \<open>applied \<le> applying \<le> committed \<le> lastIndex()\<close>, with \<open>lastIndex()\<close> returning.
\<close>

definition chain :: "raftLog \<Rightarrow> bool" where
  "chain l =
     (case lastIndex l of
        Inl p \<Rightarrow> False
      | Inr li \<Rightarrow> applied l \<le> applying l \<and> applying l \<le> committed l \<and> committed l \<le> li)"

text \<open>
  The unstable buffer continues the log: \<open>lastIndex()\<close> is
  \<open>unstable.offset + len(entries) - 1\<close> and lies below the largest 64-bit value,
  and a pending snapshot is not above \<open>committed\<close> (\<open>firstIndex() - 1 \<le> committed\<close>
  in the list of global invariants of the specification).
\<close>

definition coherent :: "raftLog \<Rightarrow> bool" where
  "coherent l =
     (case lastIndex l of
        Inl p \<Rightarrow> False
      | Inr li \<Rightarrow>
          li < - 1 \<and>
          unat li + 1 = unat (offset (unstable l)) + length (entries (unstable l)) \<and>
          (case snapshot (unstable l) of
             None \<Rightarrow> True
           | Some s \<Rightarrow> Metadata_Index s \<le> committed l))"

text \<open>
  The entries of an append message have consecutive indices that start right
  after \<open>prevIndex\<close> (log.go, at \<open>findConflict\<close>: the index of the given entries must
  be continuously increasing).
\<close>

fun contiguous :: "u64 \<Rightarrow> Entry list \<Rightarrow> bool" where
  "contiguous prevIndex [] = True"
| "contiguous prevIndex (e # ents) = (Index e = prevIndex + 1 \<and> contiguous (prevIndex + 1) ents)"

text \<open>
  The entry that the unstable buffer holds for an index, if it holds one. With
  the storage, which no operation of the log writes, this is the content of the
  log at that index.
\<close>

definition unstableEntry :: "unstable \<Rightarrow> u64 \<Rightarrow> Entry option" where
  "unstableEntry u i =
     (if offset u \<le> i \<and> unat (i - offset u) < length (entries u)
      then Some (entries u ! unat (i - offset u))
      else None)"

section \<open>Properties\<close>

lemmas ex_defs = exampleLog_def exampleStorage_def ent_def lastIndex_def firstIndex_def
  maybeLastIndex_def maybeFirstIndex_def maybeTerm_def raftLog_term_def matchTerm_def
  zeroTermOnOutOfBounds_def

text \<open>
  An index whose term the log knows is covered by the log, so \<open>lastIndex\<close> does
  not panic there.
\<close>

lemma term_known_lastIndex:
  "raftLog_term l i = Inr (Inr t) \<Longrightarrow> \<exists>li. lastIndex l = Inr li"
  by (auto simp: raftLog_term_def lastIndex_def maybeTerm_def maybeLastIndex_def
      split: option.splits sum.splits if_splits)

subsection \<open>Arithmetic of 64-bit indices\<close>

lemma unat_add_of_nat:
  "unat x + n < 2 ^ 64 \<Longrightarrow> unat (x + of_nat n :: u64) = unat x + n"
proof -
  assume a: "unat x + n < 2 ^ 64"
  then have "n < 2 ^ 64" by simp
  then have "unat (of_nat n :: u64) = n" by (simp add: unat_of_nat)
  with a show ?thesis by (simp add: unat_add_lem [THEN iffD1])
qed

lemma unat_max64: "unat (- 1 :: u64) = 2 ^ 64 - 1"
  by (simp add: unsigned_minus_1_eq_mask mask_eq_exp_minus_1)

lemma lt_max_iff: "(x :: u64) < - 1 \<longleftrightarrow> unat x + 1 < 2 ^ 64"
  by (simp add: word_less_nat_alt unat_max64)

lemma unat_plus_one: "(x :: u64) < - 1 \<Longrightarrow> unat (x + 1) = unat x + 1"
  by (simp add: lt_max_iff unat_add_lem [THEN iffD1])

lemma unat_last:
  "0 < n \<Longrightarrow> unat off + n \<le> 2 ^ 64 \<Longrightarrow> unat (off + of_nat n - 1 :: u64) = unat off + n - 1"
proof -
  assume a: "0 < n" "unat off + n \<le> 2 ^ 64"
  then obtain m where m: "n = Suc m" by (cases n) auto
  have "off + of_nat n - 1 = off + of_nat m" by (simp add: m)
  moreover have "unat (off + of_nat m) = unat off + m"
    using a m by (intro unat_add_of_nat) simp
  ultimately show ?thesis by (simp add: m)
qed

subsection \<open>commitTo\<close>

text \<open>
  C4. \<open>commitTo(leaderTerm, tocommit)\<close> leaves the log unchanged when
  \<open>leaderTerm\<close> differs from the log's \<open>leaderTerm\<close>. Otherwise, with \<open>li\<close> the value
  of \<open>lastIndex()\<close>, it sets \<open>committed\<close> to \<open>max(committed, min(tocommit, li))\<close> and
  changes no other field (if \<open>lastIndex()\<close> panics on a storage error, so does
  \<open>commitTo\<close>). Whenever \<open>commitTo\<close> returns, \<open>committed\<close> has not decreased.
\<close>

theorem commitTo_spec:
  "(lt \<noteq> leaderTerm l \<longrightarrow> commitTo l lt tocommit = Inr l) \<and>
   (lt = leaderTerm l \<longrightarrow> lastIndex l = Inr li \<longrightarrow>
      commitTo l lt tocommit = Inr (l\<lparr>committed := max (committed l) (min tocommit li)\<rparr>)) \<and>
   (lt = leaderTerm l \<longrightarrow> lastIndex l = Inl p \<longrightarrow> commitTo l lt tocommit = Inl p) \<and>
   (commitTo l lt tocommit = Inr l' \<longrightarrow> committed l \<le> committed l')"
  by (auto simp: commitTo_def Let_def max_def split: sum.splits if_splits)

text \<open>
  In a log with last index 3 and \<open>leaderTerm\<close> 1, a commit to 5 from leader term 1
  moves \<open>committed\<close> from 1 to 3, and the same commit from leader term 2 is
  ignored; over a storage whose \<open>LastIndex\<close> fails the commit panics.
\<close>

theorem commitTo_spec_witness:
  "leaderTerm (exampleLog [ent 1 1, ent 2 1, ent 3 1] 1 1) = 1 \<and>
   lastIndex (exampleLog [ent 1 1, ent 2 1, ent 3 1] 1 1) = Inr 3 \<and>
   commitTo (exampleLog [ent 1 1, ent 2 1, ent 3 1] 1 1) 1 5 =
     Inr ((exampleLog [ent 1 1, ent 2 1, ent 3 1] 1 1)\<lparr>committed := 3\<rparr>) \<and>
   committed (exampleLog [ent 1 1, ent 2 1, ent 3 1] 1 1)
     \<le> committed ((exampleLog [ent 1 1, ent 2 1, ent 3 1] 1 1)\<lparr>committed := 3\<rparr>) \<and>
   commitTo (exampleLog [ent 1 1, ent 2 1, ent 3 1] 1 1) 2 5 =
     Inr (exampleLog [ent 1 1, ent 2 1, ent 3 1] 1 1) \<and>
   commitTo ((exampleLog [ent 1 1, ent 2 1, ent 3 1] 1 1)
               \<lparr>storage := lastIndexFailing [ent 1 1, ent 2 1, ent 3 1] (ErrOther ''disk'')\<rparr>) 1 5 =
     Inl (PanicErr (ErrOther ''disk''))"
proof -
  let ?L = "exampleLog [ent 1 1, ent 2 1, ent 3 1] 1 1"
  let ?B = "?L\<lparr>storage := lastIndexFailing [ent 1 1, ent 2 1, ent 3 1] (ErrOther ''disk'')\<rparr>"
  have f: "leaderTerm ?L = 1" "lastIndex ?L = Inr 3" "(2::u64) \<noteq> leaderTerm ?L"
    "max (committed ?L) (min 5 3) = 3"
    by (simp_all add: ex_defs)
  have g: "1 = leaderTerm ?B" "lastIndex ?B = Inl (PanicErr (ErrOther ''disk''))"
    by (simp_all add: ex_defs lastIndexFailing_def)
  have f': "(1::u64) = leaderTerm ?L" by (simp add: exampleLog_def)
  from commitTo_spec [THEN conjunct2, THEN conjunct1, rule_format, OF f' f(2), of 5] f(4)
  have r1: "commitTo ?L 1 5 = Inr (?L\<lparr>committed := 3\<rparr>)" by simp
  from commitTo_spec [THEN conjunct2, THEN conjunct2, THEN conjunct2, rule_format, OF r1]
  have r2: "committed ?L \<le> committed (?L\<lparr>committed := 3\<rparr>)" .
  from commitTo_spec [THEN conjunct1, rule_format, OF f(3)]
  have r3: "commitTo ?L 2 5 = Inr ?L" .
  from commitTo_spec [THEN conjunct2, THEN conjunct2, THEN conjunct1, rule_format, OF g]
  have r4: "commitTo ?B 1 5 = Inl (PanicErr (ErrOther ''disk''))" .
  from f r1 r2 r3 r4 show ?thesis by blast
qed

subsection \<open>restore\<close>

text \<open>
  C5. \<open>restore(s)\<close> sets \<open>committed\<close> to the index of the snapshot and replaces the
  unstable state by the pending snapshot \<open>s\<close> with no entries; the storage,
  \<open>leaderTerm\<close>, \<open>applying\<close>, \<open>applied\<close>, \<open>maxApplyingEntsSize\<close>, \<open>applyingEntsSize\<close>
  and \<open>applyingEntsPaused\<close> keep their values; afterwards \<open>firstIndex()\<close> is the
  index of the snapshot plus one.
\<close>

theorem restore_frame:
  "committed (restore l s) = Metadata_Index s \<and>
   unstable (restore l s) =
     \<lparr>snapshot = Some s, entries = [], offset = Metadata_Index s + 1,
      snapshotInProgress = False, offsetInProgress = Metadata_Index s + 1\<rparr> \<and>
   storage (restore l s) = storage l \<and>
   leaderTerm (restore l s) = leaderTerm l \<and>
   applying (restore l s) = applying l \<and>
   applied (restore l s) = applied l \<and>
   maxApplyingEntsSize (restore l s) = maxApplyingEntsSize l \<and>
   applyingEntsSize (restore l s) = applyingEntsSize l \<and>
   applyingEntsPaused (restore l s) = applyingEntsPaused l \<and>
   firstIndex (restore l s) = Inr (Metadata_Index s + 1)"
  by (simp add: restore_def unstable_restore_def firstIndex_def maybeFirstIndex_def)

text \<open>Scenario S5 of the specification: a snapshot at index 10 with term 7.\<close>

theorem restore_frame_witness:
  "firstIndex (restore (exampleLog [ent 1 1, ent 2 1, ent 3 1] 1 1)
                 \<lparr>Metadata_Index = 10, Metadata_Term = 7, Snapshot_Data = []\<rparr>) = Inr 11 \<and>
   committed (restore (exampleLog [ent 1 1, ent 2 1, ent 3 1] 1 1)
                 \<lparr>Metadata_Index = 10, Metadata_Term = 7, Snapshot_Data = []\<rparr>) = 10 \<and>
   applying (restore (exampleLog [ent 1 1, ent 2 1, ent 3 1] 1 1)
                 \<lparr>Metadata_Index = 10, Metadata_Term = 7, Snapshot_Data = []\<rparr>) = 1"
  using restore_frame [of "exampleLog [ent 1 1, ent 2 1, ent 3 1] 1 1"
      "\<lparr>Metadata_Index = 10, Metadata_Term = 7, Snapshot_Data = []\<rparr>"]
  by (simp add: exampleLog_def)

subsection \<open>nextCommittedEnts\<close>

text \<open>
  C6. \<open>nextCommittedEnts(allowUnstable)\<close> returns the empty slice when
  \<open>applyingEntsPaused\<close> is set, when an unstable snapshot is pending or in
  progress, and when the range \<open>(applying, maxAppliableIndex(allowUnstable)]\<close> is
  empty (for \<open>applying\<close> below the largest 64-bit index, where \<open>applying + 1\<close> does
  not wrap around). When it returns a non-empty slice, the remaining budget
  \<open>maxApplyingEntsSize - applyingEntsSize\<close> is strictly positive; a budget of
  zero with a non-empty range is fatal.
\<close>

theorem nextCommittedEnts_gate:
  "(applyingEntsPaused l \<longrightarrow> nextCommittedEnts sz l allowUnstable = Inr []) \<and>
   (hasNextOrInProgressSnapshot l \<longrightarrow> nextCommittedEnts sz l allowUnstable = Inr []) \<and>
   (applying l < - 1 \<longrightarrow> maxAppliableIndex l allowUnstable \<le> applying l \<longrightarrow>
      nextCommittedEnts sz l allowUnstable = Inr []) \<and>
   (nextCommittedEnts sz l allowUnstable = Inr ents \<longrightarrow> ents \<noteq> [] \<longrightarrow>
      0 < maxApplyingEntsSize l - applyingEntsSize l) \<and>
   (\<not> applyingEntsPaused l \<longrightarrow> \<not> hasNextOrInProgressSnapshot l \<longrightarrow>
    applying l < maxAppliableIndex l allowUnstable \<longrightarrow>
    maxAppliableIndex l allowUnstable < - 1 \<longrightarrow>
    maxApplyingEntsSize l - applyingEntsSize l = 0 \<longrightarrow>
      nextCommittedEnts sz l allowUnstable = Inl ApplyingSizeNotPositive)"
proof -
  have range_empty: "applying l + 1 \<ge> maxAppliableIndex l allowUnstable + 1"
    if "applying l < - 1" "maxAppliableIndex l allowUnstable \<le> applying l"
    using that by unat_arith
  have range_nonempty: "\<not> applying l + 1 \<ge> maxAppliableIndex l allowUnstable + 1"
    if "applying l < maxAppliableIndex l allowUnstable" "maxAppliableIndex l allowUnstable < - 1"
    using that by unat_arith
  have c1: "applyingEntsPaused l \<longrightarrow> nextCommittedEnts sz l allowUnstable = Inr []"
    by (simp add: nextCommittedEnts_def)
  have c2: "hasNextOrInProgressSnapshot l \<longrightarrow> nextCommittedEnts sz l allowUnstable = Inr []"
    by (simp add: nextCommittedEnts_def)
  have c3: "applying l < - 1 \<longrightarrow> maxAppliableIndex l allowUnstable \<le> applying l \<longrightarrow>
      nextCommittedEnts sz l allowUnstable = Inr []"
    using range_empty by (simp add: nextCommittedEnts_def Let_def)
  have c4: "nextCommittedEnts sz l allowUnstable = Inr ents \<longrightarrow> ents \<noteq> [] \<longrightarrow>
      0 < maxApplyingEntsSize l - applyingEntsSize l"
    by (auto simp: nextCommittedEnts_def Let_def word_greater_zero_iff split: if_splits)
  have c5: "\<not> applyingEntsPaused l \<longrightarrow> \<not> hasNextOrInProgressSnapshot l \<longrightarrow>
    applying l < maxAppliableIndex l allowUnstable \<longrightarrow>
    maxAppliableIndex l allowUnstable < - 1 \<longrightarrow>
    maxApplyingEntsSize l - applyingEntsSize l = 0 \<longrightarrow>
      nextCommittedEnts sz l allowUnstable = Inl ApplyingSizeNotPositive"
    using range_nonempty by (simp add: nextCommittedEnts_def Let_def)
  show ?thesis using c1 c2 c3 c4 c5 by blast
qed

text \<open>
  With three committed entries and \<open>applying = 1\<close> the entries 2 and 3 are
  returned under an unlimited budget; nothing is returned once the latch is
  set, after a restore, or when \<open>applying = committed\<close>; a budget of zero is
  fatal.
\<close>

theorem nextCommittedEnts_gate_witness:
  "nextCommittedEnts exampleSize
     ((exampleLog [ent 1 1, ent 2 1, ent 3 1] 1 3)\<lparr>applying := 1, applied := 1\<rparr>) True
     = Inr [ent 2 1, ent 3 1] \<and>
   (0::u64) < maxApplyingEntsSize (exampleLog [ent 1 1, ent 2 1, ent 3 1] 1 3)
          - applyingEntsSize (exampleLog [ent 1 1, ent 2 1, ent 3 1] 1 3) \<and>
   nextCommittedEnts exampleSize
     ((exampleLog [ent 1 1, ent 2 1, ent 3 1] 1 3)\<lparr>applyingEntsPaused := True\<rparr>) True = Inr [] \<and>
   nextCommittedEnts exampleSize
     (restore (exampleLog [ent 1 1, ent 2 1, ent 3 1] 1 3)
        \<lparr>Metadata_Index = 10, Metadata_Term = 7, Snapshot_Data = []\<rparr>) True = Inr [] \<and>
   nextCommittedEnts exampleSize (exampleLog [ent 1 1, ent 2 1, ent 3 1] 1 3) True = Inr [] \<and>
   nextCommittedEnts exampleSize
     ((exampleLog [ent 1 1, ent 2 1, ent 3 1] 1 3)
        \<lparr>applying := 1, applied := 1, maxApplyingEntsSize := 0\<rparr>) True
     = Inl ApplyingSizeNotPositive"
proof -
  let ?L = "exampleLog [ent 1 1, ent 2 1, ent 3 1] 1 3"
  let ?A = "?L\<lparr>applying := 1, applied := 1\<rparr>"
  let ?P = "?L\<lparr>applyingEntsPaused := True\<rparr>"
  let ?R = "restore ?L \<lparr>Metadata_Index = 10, Metadata_Term = 7, Snapshot_Data = []\<rparr>"
  let ?Z = "?L\<lparr>applying := 1, applied := 1, maxApplyingEntsSize := 0\<rparr>"
  have e1: "nextCommittedEnts exampleSize ?A True = Inr [ent 2 1, ent 3 1]"
    "[ent 2 1, ent 3 1] \<noteq> []"
    "maxApplyingEntsSize ?A - applyingEntsSize ?A = maxApplyingEntsSize ?L - applyingEntsSize ?L"
    by (simp_all add: ex_defs nextCommittedEnts_def maxAppliableIndex_def
        hasNextOrInProgressSnapshot_def slice_def mustCheckOutOfBounds_def limitSize_def
        exampleSize_def noLimit_def Let_def)
  from nextCommittedEnts_gate [of ?A exampleSize True "[ent 2 1, ent 3 1]"] e1
  have r1: "0 < maxApplyingEntsSize ?L - applyingEntsSize ?L" by simp
  have e2: "applyingEntsPaused ?P" by simp
  from nextCommittedEnts_gate [of ?P exampleSize True] e2
  have r2: "nextCommittedEnts exampleSize ?P True = Inr []" by blast
  have e3: "hasNextOrInProgressSnapshot ?R"
    by (simp add: hasNextOrInProgressSnapshot_def restore_def unstable_restore_def)
  from nextCommittedEnts_gate [of ?R exampleSize True] e3
  have r3: "nextCommittedEnts exampleSize ?R True = Inr []" by blast
  have e4: "applying ?L < - 1" "maxAppliableIndex ?L True \<le> applying ?L"
    by (simp_all add: exampleLog_def maxAppliableIndex_def)
  from nextCommittedEnts_gate [of ?L exampleSize True] e4
  have r4: "nextCommittedEnts exampleSize ?L True = Inr []" by blast
  have e5: "\<not> applyingEntsPaused ?Z" "\<not> hasNextOrInProgressSnapshot ?Z"
    "applying ?Z < maxAppliableIndex ?Z True" "maxAppliableIndex ?Z True < - 1"
    "maxApplyingEntsSize ?Z - applyingEntsSize ?Z = 0"
    by (simp_all add: exampleLog_def maxAppliableIndex_def hasNextOrInProgressSnapshot_def)
  from nextCommittedEnts_gate [of ?Z exampleSize True] e5
  have r5: "nextCommittedEnts exampleSize ?Z True = Inl ApplyingSizeNotPositive" by blast
  from e1(1) r1 r2 r3 r4 r5 show ?thesis by blast
qed

subsection \<open>term\<close>

text \<open>
  The test of \<open>term\<close> for a compacted index is \<open>i + 1 < firstIndex()\<close> in 64-bit
  arithmetic. Over the natural numbers it holds when \<open>i + 1\<close> is below
  \<open>firstIndex()\<close>, and also at the largest 64-bit index, where \<open>i + 1\<close> wraps to 0,
  whenever \<open>firstIndex()\<close> is positive.
\<close>

lemma compacted_test:
  "(i + 1 < fi) = (unat i + 1 < unat fi \<or> (i = - 1 \<and> 0 < fi))" for i fi :: u64
proof (cases "i = - 1")
  case True
  have "unat fi < 2 ^ 64" using unsigned_less [of fi] by simp
  then have "\<not> unat (- 1 :: u64) + 1 < unat fi" by (simp add: unat_max64)
  with True show ?thesis by simp
next
  case False
  then have "i < - 1" by (simp add: word_order.not_eq_extremum)
  then have "unat (i + 1) = unat i + 1" by (rule unat_plus_one)
  with False show ?thesis by (simp add: word_less_nat_alt)
qed

text \<open>
  C7 (as amended). \<open>term(i)\<close> returns the term of the unstable buffer when the
  buffer knows index \<open>i\<close>. Otherwise it returns the error \<open>ErrCompacted\<close> when
  \<open>i < firstIndex() - 1\<close> over the integers, and also when \<open>i\<close> is the largest
  64-bit value and \<open>firstIndex()\<close> is positive; otherwise the error
  \<open>ErrUnavailable\<close> when \<open>i\<close> is above \<open>lastIndex()\<close>; and otherwise, inside
  \<open>[firstIndex() - 1, lastIndex()]\<close>, the answer of \<open>Storage.Term(i)\<close>, where the
  errors \<open>ErrCompacted\<close> and \<open>ErrUnavailable\<close> are returned and any other error of
  the storage is a panic. A panic of \<open>firstIndex()\<close> or \<open>lastIndex()\<close> on a storage
  error is a panic of \<open>term\<close>.
\<close>

theorem raftLog_term_spec:
  "(maybeTerm (unstable l) i = Some t \<longrightarrow> raftLog_term l i = Inr (Inr t)) \<and>
   (maybeTerm (unstable l) i = None \<longrightarrow> firstIndex l = Inr fi \<longrightarrow>
    (unat i + 1 < unat fi \<or> (i = - 1 \<and> 0 < fi)) \<longrightarrow>
      raftLog_term l i = Inr (Inl ErrCompacted)) \<and>
   (maybeTerm (unstable l) i = None \<longrightarrow> firstIndex l = Inr fi \<longrightarrow>
    \<not> (unat i + 1 < unat fi \<or> (i = - 1 \<and> 0 < fi)) \<longrightarrow> lastIndex l = Inr li \<longrightarrow>
      (li < i \<longrightarrow> raftLog_term l i = Inr (Inl ErrUnavailable)) \<and>
      (i \<le> li \<longrightarrow>
         (\<forall>t'. storage_Term (storage l) i = Inr t' \<longrightarrow> raftLog_term l i = Inr (Inr t')) \<and>
         (\<forall>err. storage_Term (storage l) i = Inl err \<longrightarrow>
            (if err = ErrCompacted \<or> err = ErrUnavailable
             then raftLog_term l i = Inr (Inl err)
             else raftLog_term l i = Inl (PanicErr err))))) \<and>
   (maybeTerm (unstable l) i = None \<longrightarrow> firstIndex l = Inl p \<longrightarrow> raftLog_term l i = Inl p) \<and>
   (maybeTerm (unstable l) i = None \<longrightarrow> firstIndex l = Inr fi \<longrightarrow>
    \<not> (unat i + 1 < unat fi \<or> (i = - 1 \<and> 0 < fi)) \<longrightarrow> lastIndex l = Inl p \<longrightarrow>
      raftLog_term l i = Inl p)"
proof -
  let ?c = "unat i + 1 < unat fi \<or> (i = - 1 \<and> 0 < fi)"
  have ct: "?c = (i + 1 < fi)" by (rule compacted_test [symmetric])
  have c1: "maybeTerm (unstable l) i = Some t \<longrightarrow> raftLog_term l i = Inr (Inr t)"
    by (simp add: raftLog_term_def)
  have c2: "maybeTerm (unstable l) i = None \<longrightarrow> firstIndex l = Inr fi \<longrightarrow> i + 1 < fi \<longrightarrow>
      raftLog_term l i = Inr (Inl ErrCompacted)"
    by (simp add: raftLog_term_def)
  have c3: "maybeTerm (unstable l) i = None \<longrightarrow> firstIndex l = Inr fi \<longrightarrow>
    \<not> i + 1 < fi \<longrightarrow> lastIndex l = Inr li \<longrightarrow>
      (li < i \<longrightarrow> raftLog_term l i = Inr (Inl ErrUnavailable)) \<and>
      (i \<le> li \<longrightarrow>
         (\<forall>t'. storage_Term (storage l) i = Inr t' \<longrightarrow> raftLog_term l i = Inr (Inr t')) \<and>
         (\<forall>err. storage_Term (storage l) i = Inl err \<longrightarrow>
            (if err = ErrCompacted \<or> err = ErrUnavailable
             then raftLog_term l i = Inr (Inl err)
             else raftLog_term l i = Inl (PanicErr err))))"
    by (auto simp: raftLog_term_def)
  have c4: "maybeTerm (unstable l) i = None \<longrightarrow> firstIndex l = Inl p \<longrightarrow> raftLog_term l i = Inl p"
    by (simp add: raftLog_term_def)
  have c5: "maybeTerm (unstable l) i = None \<longrightarrow> firstIndex l = Inr fi \<longrightarrow>
    \<not> i + 1 < fi \<longrightarrow> lastIndex l = Inl p \<longrightarrow> raftLog_term l i = Inl p"
    by (simp add: raftLog_term_def)
  show ?thesis
    unfolding ct using c1 c2 c3 c4 c5 by blast
qed

text \<open>
  In a log over the stored entries 1 to 3: the term of index 2 comes from the
  storage, index 7 is unavailable, and the largest 64-bit index is reported as
  compacted. After a restore of a snapshot at index 9 with term 4, index 5 is
  compacted and index 9 has the term of the pending snapshot. A storage whose
  \<open>Term\<close> answers \<open>ErrCompacted\<close> has this error returned, one that answers another
  error causes a panic, and so does a failing \<open>LastIndex\<close> or \<open>FirstIndex\<close>.
\<close>

theorem raftLog_term_witness:
  "raftLog_term (exampleLog [ent 1 1, ent 2 1, ent 3 1] 1 1) 2 = Inr (Inr 1) \<and>
   raftLog_term (exampleLog [ent 1 1, ent 2 1, ent 3 1] 1 1) 7 = Inr (Inl ErrUnavailable) \<and>
   raftLog_term (exampleLog [ent 1 1, ent 2 1, ent 3 1] 1 1) (- 1) = Inr (Inl ErrCompacted) \<and>
   raftLog_term (restore (exampleLog [ent 1 1, ent 2 1, ent 3 1] 1 1)
                   \<lparr>Metadata_Index = 9, Metadata_Term = 4, Snapshot_Data = []\<rparr>) 5
     = Inr (Inl ErrCompacted) \<and>
   raftLog_term (restore (exampleLog [ent 1 1, ent 2 1, ent 3 1] 1 1)
                   \<lparr>Metadata_Index = 9, Metadata_Term = 4, Snapshot_Data = []\<rparr>) 9
     = Inr (Inr 4) \<and>
   raftLog_term ((exampleLog [ent 1 1, ent 2 1, ent 3 1] 1 1)
                   \<lparr>storage := termFailing [ent 1 1, ent 2 1, ent 3 1] ErrCompacted\<rparr>) 2
     = Inr (Inl ErrCompacted) \<and>
   raftLog_term ((exampleLog [ent 1 1, ent 2 1, ent 3 1] 1 1)
                   \<lparr>storage := termFailing [ent 1 1, ent 2 1, ent 3 1] (ErrOther ''disk'')\<rparr>) 2
     = Inl (PanicErr (ErrOther ''disk'')) \<and>
   raftLog_term ((exampleLog [ent 1 1, ent 2 1, ent 3 1] 1 1)
                   \<lparr>storage := lastIndexFailing [ent 1 1, ent 2 1, ent 3 1] (ErrOther ''disk'')\<rparr>) 2
     = Inl (PanicErr (ErrOther ''disk'')) \<and>
   raftLog_term ((exampleLog [ent 1 1, ent 2 1, ent 3 1] 1 1)
                   \<lparr>storage := (exampleStorage [ent 1 1, ent 2 1, ent 3 1])
                      \<lparr>storage_FirstIndex := Inl (ErrOther ''disk'')\<rparr>\<rparr>) 2
     = Inl (PanicErr (ErrOther ''disk''))"
proof -
  let ?E = "[ent 1 1, ent 2 1, ent 3 1]"
  let ?L = "exampleLog ?E 1 1"
  let ?R = "restore ?L \<lparr>Metadata_Index = 9, Metadata_Term = 4, Snapshot_Data = []\<rparr>"
  let ?C = "?L\<lparr>storage := termFailing ?E ErrCompacted\<rparr>"
  let ?D = "?L\<lparr>storage := termFailing ?E (ErrOther ''disk'')\<rparr>"
  let ?B = "?L\<lparr>storage := lastIndexFailing ?E (ErrOther ''disk'')\<rparr>"
  let ?F = "?L\<lparr>storage := (exampleStorage ?E)\<lparr>storage_FirstIndex := Inl (ErrOther ''disk'')\<rparr>\<rparr>"
  note stored = raftLog_term_spec [THEN conjunct2, THEN conjunct2, THEN conjunct1, rule_format]
  have l: "maybeTerm (unstable ?L) 2 = None" "maybeTerm (unstable ?L) 7 = None"
    "maybeTerm (unstable ?L) (- 1) = None"
    "firstIndex ?L = Inr 1" "lastIndex ?L = Inr 3" "storage_Term (storage ?L) 2 = Inr 1"
    by (simp_all add: ex_defs)
  have in2: "\<not> (unat (2::u64) + 1 < unat (1::u64) \<or> ((2::u64) = - 1 \<and> (0::u64) < 1))"
    and in7: "\<not> (unat (7::u64) + 1 < unat (1::u64) \<or> ((7::u64) = - 1 \<and> (0::u64) < 1))"
    and top: "unat (- 1 :: u64) + 1 < unat (1::u64) \<or> ((- 1 :: u64) = - 1 \<and> (0::u64) < 1)"
    and in5: "unat (5::u64) + 1 < unat (10::u64) \<or> ((5::u64) = - 1 \<and> (0::u64) < 10)"
    and w: "(2::u64) \<le> 3" "(3::u64) < 7"
    by simp_all
  from stored [OF l(1) l(4) in2 l(5)] w(1) l(6)
  have r1: "raftLog_term ?L 2 = Inr (Inr 1)" by blast
  from stored [OF l(2) l(4) in7 l(5)] w(2)
  have r2: "raftLog_term ?L 7 = Inr (Inl ErrUnavailable)" by blast
  from raftLog_term_spec [THEN conjunct2, THEN conjunct1, rule_format, OF l(3) l(4) top]
  have r3: "raftLog_term ?L (- 1) = Inr (Inl ErrCompacted)" .
  have r: "maybeTerm (unstable ?R) 5 = None" "maybeTerm (unstable ?R) 9 = Some 4"
    "firstIndex ?R = Inr 10"
    by (simp_all add: ex_defs restore_def unstable_restore_def)
  from raftLog_term_spec [THEN conjunct2, THEN conjunct1, rule_format, OF r(1) r(3) in5]
  have r4: "raftLog_term ?R 5 = Inr (Inl ErrCompacted)" .
  from raftLog_term_spec [THEN conjunct1, rule_format, OF r(2)]
  have r5: "raftLog_term ?R 9 = Inr (Inr 4)" .
  have c: "maybeTerm (unstable ?C) 2 = None" "firstIndex ?C = Inr 1" "lastIndex ?C = Inr 3"
    "storage_Term (storage ?C) 2 = Inl ErrCompacted"
    by (simp_all add: ex_defs termFailing_def)
  from stored [OF c(1) c(2) in2 c(3)] w(1) c(4)
  have r6: "raftLog_term ?C 2 = Inr (Inl ErrCompacted)" by auto
  have d: "maybeTerm (unstable ?D) 2 = None" "firstIndex ?D = Inr 1" "lastIndex ?D = Inr 3"
    "storage_Term (storage ?D) 2 = Inl (ErrOther ''disk'')"
    by (simp_all add: ex_defs termFailing_def)
  from stored [OF d(1) d(2) in2 d(3)] w(1) d(4)
  have r7: "raftLog_term ?D 2 = Inl (PanicErr (ErrOther ''disk''))" by auto
  have b: "maybeTerm (unstable ?B) 2 = None" "firstIndex ?B = Inr 1"
    "lastIndex ?B = Inl (PanicErr (ErrOther ''disk''))"
    by (simp_all add: ex_defs lastIndexFailing_def)
  from raftLog_term_spec [THEN conjunct2, THEN conjunct2, THEN conjunct2, THEN conjunct2,
      rule_format, OF b(1) b(2) in2 b(3)]
  have r8: "raftLog_term ?B 2 = Inl (PanicErr (ErrOther ''disk''))" .
  have f: "maybeTerm (unstable ?F) 2 = None"
    "firstIndex ?F = Inl (PanicErr (ErrOther ''disk''))"
    by (simp_all add: ex_defs)
  from raftLog_term_spec [THEN conjunct2, THEN conjunct2, THEN conjunct2, THEN conjunct1,
      rule_format, OF f(1) f(2)]
  have r9: "raftLog_term ?F 2 = Inl (PanicErr (ErrOther ''disk''))" .
  from r1 r2 r3 r4 r5 r6 r7 r8 r9 show ?thesis by blast
qed

text \<open>
  The claim as stated fails at the largest 64-bit index. In the log over the
  stored entries 1 to 3 that index is above \<open>lastIndex() = 3\<close> and not below
  \<open>firstIndex() - 1 = 0\<close>, the unstable buffer does not know it, and \<open>term\<close>
  returns \<open>ErrCompacted\<close>, not \<open>ErrUnavailable\<close>.
\<close>

theorem raftLog_term_counterexample:
  "maybeTerm (unstable (exampleLog [ent 1 1, ent 2 1, ent 3 1] 1 1)) (- 1) = None \<and>
   firstIndex (exampleLog [ent 1 1, ent 2 1, ent 3 1] 1 1) = Inr 1 \<and>
   lastIndex (exampleLog [ent 1 1, ent 2 1, ent 3 1] 1 1) = Inr 3 \<and>
   \<not> (- 1 :: u64) < 1 - 1 \<and>
   (3 :: u64) < - 1 \<and>
   raftLog_term (exampleLog [ent 1 1, ent 2 1, ent 3 1] 1 1) (- 1) = Inr (Inl ErrCompacted)"
  by (simp add: ex_defs)

subsection \<open>entries\<close>

text \<open>
  C8 (as amended). \<open>entries(i, maxBytes)\<close> returns the empty slice and no error
  when \<open>i\<close> is above \<open>lastIndex()\<close>; otherwise it returns exactly what
  \<open>slice(i, lastIndex()+1, maxBytes)\<close> returns. A panic of \<open>lastIndex()\<close> is a panic
  of \<open>entries\<close>.
\<close>

theorem entries_slice:
  "(lastIndex l = Inr li \<longrightarrow>
      raftLog_entries sz l i maxSize =
        (if li < i then Inr (Inr []) else slice sz l i (li + 1) maxSize)) \<and>
   (lastIndex l = Inl p \<longrightarrow> raftLog_entries sz l i maxSize = Inl p)"
  by (simp add: raftLog_entries_def)

theorem entries_slice_witness:
  "raftLog_entries exampleSize (exampleLog [ent 1 1, ent 2 1, ent 3 1] 1 1) 2 noLimit
     = slice exampleSize (exampleLog [ent 1 1, ent 2 1, ent 3 1] 1 1) 2 (3 + 1) noLimit \<and>
   slice exampleSize (exampleLog [ent 1 1, ent 2 1, ent 3 1] 1 1) 2 (3 + 1) noLimit
     = Inr (Inr [ent 2 1, ent 3 1]) \<and>
   raftLog_entries exampleSize (exampleLog [ent 1 1, ent 2 1, ent 3 1] 1 1) 4 noLimit
     = Inr (Inr []) \<and>
   raftLog_entries exampleSize
     ((exampleLog [ent 1 1, ent 2 1, ent 3 1] 1 1)
        \<lparr>storage := lastIndexFailing [ent 1 1, ent 2 1, ent 3 1] (ErrOther ''disk'')\<rparr>) 2 noLimit
     = Inl (PanicErr (ErrOther ''disk''))"
proof -
  let ?L = "exampleLog [ent 1 1, ent 2 1, ent 3 1] 1 1"
  let ?B = "?L\<lparr>storage := lastIndexFailing [ent 1 1, ent 2 1, ent 3 1] (ErrOther ''disk'')\<rparr>"
  have f: "lastIndex ?L = Inr 3" "\<not> (3::u64) < 2" "(3::u64) < 4"
    by (simp_all add: ex_defs)
  have g: "lastIndex ?B = Inl (PanicErr (ErrOther ''disk''))"
    by (simp add: ex_defs lastIndexFailing_def)
  from entries_slice [of ?L 3 exampleSize 2 noLimit] f
  have r1: "raftLog_entries exampleSize ?L 2 noLimit = slice exampleSize ?L 2 (3 + 1) noLimit"
    by simp
  have r2: "slice exampleSize ?L 2 (3 + 1) noLimit = Inr (Inr [ent 2 1, ent 3 1])"
    by (simp add: ex_defs slice_def mustCheckOutOfBounds_def limitSize_def exampleSize_def
        noLimit_def Let_def)
  from entries_slice [of ?L 3 exampleSize 4 noLimit] f
  have r3: "raftLog_entries exampleSize ?L 4 noLimit = Inr (Inr [])" by simp
  from entries_slice [of ?B _ exampleSize 2 noLimit "PanicErr (ErrOther ''disk'')"] g
  have r4: "raftLog_entries exampleSize ?B 2 noLimit = Inl (PanicErr (ErrOther ''disk''))"
    by blast
  from r1 r2 r3 r4 show ?thesis by blast
qed

text \<open>
  The claim as stated fails: in a log with last index 3, \<open>entries(5, noLimit)\<close>
  succeeds with no entries, while \<open>slice(5, 4, noLimit)\<close> panics on \<open>lo > hi\<close>.
\<close>

theorem entries_slice_counterexample:
  "lastIndex (exampleLog [ent 1 1, ent 2 1, ent 3 1] 1 1) = Inr 3 \<and>
   raftLog_entries exampleSize (exampleLog [ent 1 1, ent 2 1, ent 3 1] 1 1) 5 noLimit
     = Inr (Inr []) \<and>
   slice exampleSize (exampleLog [ent 1 1, ent 2 1, ent 3 1] 1 1) 5 (3 + 1) noLimit
     = Inl (InvalidSlice 5 4)"
  by (simp add: ex_defs raftLog_entries_def slice_def mustCheckOutOfBounds_def)

subsection \<open>maybeCommit\<close>

text \<open>
  C10. \<open>maybeCommit(leaderTerm, maxIndex, term)\<close> returns true whenever
  \<open>maxIndex > committed\<close>, \<open>term \<noteq> 0\<close> and the term of the log at \<open>maxIndex\<close> (an
  error \<open>ErrCompacted\<close> or \<open>ErrUnavailable\<close> counting as 0) equals \<open>term\<close>. When in
  addition \<open>leaderTerm\<close> differs from the log's \<open>leaderTerm\<close>, it returns true and
  the log is unchanged, so \<open>committed\<close> is still below \<open>maxIndex\<close>.
\<close>

theorem maybeCommit_true_without_commit:
  "(committed l < maxIndex \<longrightarrow> t \<noteq> 0 \<longrightarrow>
    (\<exists>r. raftLog_term l maxIndex = Inr r \<and> zeroTermOnOutOfBounds r = Inr t) \<longrightarrow>
      (\<exists>l'. maybeCommit l lt maxIndex t = Inr (l', True))) \<and>
   (committed l < maxIndex \<longrightarrow> t \<noteq> 0 \<longrightarrow>
    (\<exists>r. raftLog_term l maxIndex = Inr r \<and> zeroTermOnOutOfBounds r = Inr t) \<longrightarrow>
    lt \<noteq> leaderTerm l \<longrightarrow>
      maybeCommit l lt maxIndex t = Inr (l, True) \<and> \<not> maxIndex \<le> committed l)"
proof -
  have known: "\<exists>li. lastIndex l = Inr li"
    if "raftLog_term l maxIndex = Inr r" "zeroTermOnOutOfBounds r = Inr t" "t \<noteq> 0" for r
    using that term_known_lastIndex [of l maxIndex t]
    by (cases r) (auto simp: zeroTermOnOutOfBounds_def split: if_splits)
  have c1: "committed l < maxIndex \<longrightarrow> t \<noteq> 0 \<longrightarrow>
    (\<exists>r. raftLog_term l maxIndex = Inr r \<and> zeroTermOnOutOfBounds r = Inr t) \<longrightarrow>
      (\<exists>l'. maybeCommit l lt maxIndex t = Inr (l', True))"
    using known by (auto simp: maybeCommit_def commitTo_def Let_def)
  have c2: "committed l < maxIndex \<longrightarrow> t \<noteq> 0 \<longrightarrow>
    (\<exists>r. raftLog_term l maxIndex = Inr r \<and> zeroTermOnOutOfBounds r = Inr t) \<longrightarrow>
    lt \<noteq> leaderTerm l \<longrightarrow>
      maybeCommit l lt maxIndex t = Inr (l, True) \<and> \<not> maxIndex \<le> committed l"
    by (auto simp: maybeCommit_def commitTo_def)
  show ?thesis using c1 c2 by blast
qed

text \<open>
  A log with last index 3, \<open>committed = 1\<close> and \<open>leaderTerm = 1\<close>: the call
  \<open>maybeCommit(2, 3, 1)\<close> answers true and \<open>committed\<close> stays 1.
\<close>

theorem maybeCommit_witness:
  "committed (exampleLog [ent 1 1, ent 2 1, ent 3 1] 1 1) < 3 \<and>
   raftLog_term (exampleLog [ent 1 1, ent 2 1, ent 3 1] 1 1) 3 = Inr (Inr 1) \<and>
   maybeCommit (exampleLog [ent 1 1, ent 2 1, ent 3 1] 1 1) 2 3 1 =
     Inr (exampleLog [ent 1 1, ent 2 1, ent 3 1] 1 1, True)"
  using maybeCommit_true_without_commit [of "exampleLog [ent 1 1, ent 2 1, ent 3 1] 1 1" 3 1 2]
  by (simp add: ex_defs)

subsection \<open>findConflictByTerm\<close>

text \<open>
  The loop returns at the first index, counting down from \<open>index\<close>, whose term is
  unknown or at most \<open>t\<close>; every index it stepped over has a known, larger term.
\<close>

lemma findConflictByTerm_sound:
  "findConflictByTerm l index t = Inr (j, tj) \<Longrightarrow>
     j \<le> index \<and>
     (\<forall>k. j < k \<and> k \<le> index \<longrightarrow> (\<exists>tk. raftLog_term l k = Inr (Inr tk) \<and> t < tk)) \<and>
     (0 < j \<longrightarrow> ((\<exists>e. raftLog_term l j = Inr (Inl e)) \<and> tj = 0)
                \<or> (raftLog_term l j = Inr (Inr tj) \<and> tj \<le> t)) \<and>
     (j = 0 \<longrightarrow> tj = 0)"
proof (induction l index t rule: findConflictByTerm.induct)
  case (1 l index t)
  show ?case
  proof (cases "index > 0")
    case False
    then have "index = 0" by (simp add: word_greater_zero_iff)
    with "1.prems" show ?thesis
      by (auto simp: findConflictByTerm.simps [of l 0 t] word_greater_zero_iff)
  next
    case pos: True
    show ?thesis
    proof (cases "raftLog_term l index")
      case (Inl p)
      with pos "1.prems" show ?thesis
        by (simp add: findConflictByTerm.simps [of l index t])
    next
      case (Inr r)
      show ?thesis
      proof (cases r)
        case (Inl e)
        with Inr pos "1.prems" have "j = index" "tj = 0"
          by (simp_all add: findConflictByTerm.simps [of l index t])
        with Inr Inl pos show ?thesis by auto
      next
        case inner: (Inr ourTerm)
        show ?thesis
        proof (cases "ourTerm \<le> t")
          case True
          with Inr inner pos "1.prems" have "j = index" "tj = ourTerm"
            by (simp_all add: findConflictByTerm.simps [of l index t])
          with Inr inner True pos show ?thesis by auto
        next
          case False
          with Inr inner pos "1.prems" have rec: "findConflictByTerm l (index - 1) t = Inr (j, tj)"
            by (simp add: findConflictByTerm.simps [of l index t])
          note ih = "1.IH" [OF pos Inr inner False rec]
          have step: "k \<le> index - 1 \<or> k = index" if "k \<le> index" for k
            using that pos by unat_arith
          have le: "index - 1 \<le> index" using pos by unat_arith
          from ih le have "j \<le> index" by auto
          moreover have "\<exists>tk. raftLog_term l k = Inr (Inr tk) \<and> t < tk"
            if "j < k \<and> k \<le> index" for k
          proof -
            from that step have "k \<le> index - 1 \<or> k = index" by blast
            then show ?thesis
            proof
              assume "k \<le> index - 1"
              with that ih show ?thesis by blast
            next
              assume "k = index"
              with Inr inner False show ?thesis by auto
            qed
          qed
          ultimately show ?thesis using ih by blast
        qed
      qed
    qed
  qed
qed

text \<open>The loop returns a pair unless \<open>term\<close> panics at an index it inspects.\<close>

lemma findConflictByTerm_returns:
  "(\<forall>k. 0 < k \<and> k \<le> index \<longrightarrow> (\<forall>p. raftLog_term l k \<noteq> Inl p)) \<Longrightarrow>
     \<exists>j tj. findConflictByTerm l index t = Inr (j, tj)"
proof (induction l index t rule: findConflictByTerm.induct)
  case (1 l index t)
  show ?case
  proof (cases "index > 0")
    case False
    then show ?thesis by (simp add: findConflictByTerm.simps [of l index t])
  next
    case pos: True
    with "1.prems" obtain r where r: "raftLog_term l index = Inr r"
      by (cases "raftLog_term l index") auto
    show ?thesis
    proof (cases r)
      case (Inl e)
      with r pos show ?thesis by (simp add: findConflictByTerm.simps [of l index t])
    next
      case inner: (Inr ourTerm)
      show ?thesis
      proof (cases "ourTerm \<le> t")
        case True
        with r inner pos show ?thesis by (simp add: findConflictByTerm.simps [of l index t])
      next
        case False
        have le: "index - 1 \<le> index" using pos by unat_arith
        have "\<forall>k. 0 < k \<and> k \<le> index - 1 \<longrightarrow> (\<forall>p. raftLog_term l k \<noteq> Inl p)"
          using "1.prems" le by (meson order_trans)
        from "1.IH" [OF pos r inner False this] r inner pos False
        show ?thesis by (simp add: findConflictByTerm.simps [of l index t])
      qed
    qed
  qed
qed

text \<open>
  C9. \<open>findConflictByTerm(index, term)\<close> returns the pair \<open>(j, tj)\<close> where \<open>j\<close> is the
  largest index \<open>j \<le> index\<close> such that the term at \<open>j\<close> is at most \<open>term\<close> or is
  unknown (compacted or unavailable), and \<open>tj\<close> is the term at \<open>j\<close> when known and
  0 otherwise. The loop stops above index 0, so for \<open>j = 0\<close> this relies on the
  convention that index 0 carries term 0 or is unknown. The function returns
  unless \<open>term\<close> panics at an index in \<open>[1, index]\<close>. With the log terms
  \<open>[1:1, 2:3, 3:3, 4:5]\<close>: \<open>findConflictByTerm(4, 4) = (3, 3)\<close> and
  \<open>findConflictByTerm(4, 2) = (1, 1)\<close>.
\<close>

theorem findConflictByTerm_spec:
  assumes zero: "raftLog_term l 0 = Inr (Inr 0) \<or> (\<exists>e. raftLog_term l 0 = Inr (Inl e))"
  shows "(findConflictByTerm l index t = Inr (j, tj) \<longrightarrow>
            j \<le> index \<and>
            (((\<exists>e. raftLog_term l j = Inr (Inl e)) \<and> tj = 0)
              \<or> (raftLog_term l j = Inr (Inr tj) \<and> tj \<le> t)) \<and>
            (\<forall>k. j < k \<and> k \<le> index \<longrightarrow>
                 (\<exists>tk. raftLog_term l k = Inr (Inr tk) \<and> t < tk))) \<and>
         ((\<forall>k. 0 < k \<and> k \<le> index \<longrightarrow> (\<forall>p. raftLog_term l k \<noteq> Inl p)) \<longrightarrow>
            (\<exists>j' tj'. findConflictByTerm l index t = Inr (j', tj'))) \<and>
         findConflictByTerm (exampleLog [ent 1 1, ent 2 3, ent 3 3, ent 4 5] 5 0) 4 4 = Inr (3, 3) \<and>
         findConflictByTerm (exampleLog [ent 1 1, ent 2 3, ent 3 3, ent 4 5] 5 0) 4 2 = Inr (1, 1)"
proof -
  have a: "findConflictByTerm l index t = Inr (j, tj) \<longrightarrow>
            j \<le> index \<and>
            (((\<exists>e. raftLog_term l j = Inr (Inl e)) \<and> tj = 0)
              \<or> (raftLog_term l j = Inr (Inr tj) \<and> tj \<le> t)) \<and>
            (\<forall>k. j < k \<and> k \<le> index \<longrightarrow>
                 (\<exists>tk. raftLog_term l k = Inr (Inr tk) \<and> t < tk))"
  proof
    assume r: "findConflictByTerm l index t = Inr (j, tj)"
    note s = findConflictByTerm_sound [OF r]
    show "j \<le> index \<and>
            (((\<exists>e. raftLog_term l j = Inr (Inl e)) \<and> tj = 0)
              \<or> (raftLog_term l j = Inr (Inr tj) \<and> tj \<le> t)) \<and>
            (\<forall>k. j < k \<and> k \<le> index \<longrightarrow>
                 (\<exists>tk. raftLog_term l k = Inr (Inr tk) \<and> t < tk))"
    proof (cases "j = 0")
      case True
      with s have "tj = 0" by simp
      with True zero s show ?thesis by auto
    next
      case False
      then have "0 < j" by (simp add: word_greater_zero_iff)
      with s show ?thesis by blast
    qed
  qed
  have b: "(\<forall>k. 0 < k \<and> k \<le> index \<longrightarrow> (\<forall>p. raftLog_term l k \<noteq> Inl p)) \<longrightarrow>
            (\<exists>j' tj'. findConflictByTerm l index t = Inr (j', tj'))"
    using findConflictByTerm_returns by blast
  have c: "findConflictByTerm (exampleLog [ent 1 1, ent 2 3, ent 3 3, ent 4 5] 5 0) 4 4 = Inr (3, 3)"
    by (simp add: ex_defs findConflictByTerm.simps)
  have d: "findConflictByTerm (exampleLog [ent 1 1, ent 2 3, ent 3 3, ent 4 5] 5 0) 4 2 = Inr (1, 1)"
    by (simp add: ex_defs findConflictByTerm.simps)
  show ?thesis using a b c d by blast
qed

text \<open>Over the example storage \<open>term\<close> never panics.\<close>

lemma exampleLog_term_no_panic:
  "raftLog_term (exampleLog ents lt c) k \<noteq> Inl p"
  by (simp add: ex_defs)

text \<open>
  In the log of scenario S6 index 0 has term 0; the answer \<open>(3, 3)\<close> has a known
  term \<open>3 \<le> 4\<close> at index 3 and the larger term 5 at index 4; no index in \<open>[1, 2]\<close>
  has term 0, so the search from 2 for term 0 ends at \<open>(0, 0)\<close>.
\<close>

theorem findConflictByTerm_witness:
  "raftLog_term (exampleLog [ent 1 1, ent 2 3, ent 3 3, ent 4 5] 5 0) 0 = Inr (Inr 0) \<and>
   findConflictByTerm (exampleLog [ent 1 1, ent 2 3, ent 3 3, ent 4 5] 5 0) 4 4 = Inr (3, 3) \<and>
   raftLog_term (exampleLog [ent 1 1, ent 2 3, ent 3 3, ent 4 5] 5 0) 3 = Inr (Inr 3) \<and>
   raftLog_term (exampleLog [ent 1 1, ent 2 3, ent 3 3, ent 4 5] 5 0) 4 = Inr (Inr 5) \<and>
   findConflictByTerm (exampleLog [ent 1 1, ent 2 3, ent 3 3, ent 4 5] 5 0) 2 0 = Inr (0, 0)"
proof -
  let ?L = "exampleLog [ent 1 1, ent 2 3, ent 3 3, ent 4 5] 5 0"
  have z: "raftLog_term ?L 0 = Inr (Inr 0)" by (simp add: ex_defs)
  then have zero: "raftLog_term ?L 0 = Inr (Inr 0) \<or> (\<exists>e. raftLog_term ?L 0 = Inr (Inl e))"
    by blast
  have total: "\<forall>k. 0 < k \<and> k \<le> 4 \<longrightarrow> (\<forall>p. raftLog_term ?L k \<noteq> Inl p)"
    using exampleLog_term_no_panic by blast
  from findConflictByTerm_spec [OF zero, of 4 4] total
  obtain j tj where run: "findConflictByTerm ?L 4 4 = Inr (j, tj)" by blast
  have ev: "findConflictByTerm ?L 4 4 = Inr (3, 3)"
    by (simp add: ex_defs findConflictByTerm.simps)
  from findConflictByTerm_spec [OF zero, of 4 4 3 3] ev
  have at3: "(\<exists>e. raftLog_term ?L 3 = Inr (Inl e)) \<and> (3::u64) = 0
      \<or> raftLog_term ?L 3 = Inr (Inr 3) \<and> (3::u64) \<le> 4"
    and above: "\<forall>k. 3 < k \<and> k \<le> 4 \<longrightarrow> (\<exists>tk. raftLog_term ?L k = Inr (Inr tk) \<and> 4 < tk)"
    by blast+
  from at3 have r3: "raftLog_term ?L 3 = Inr (Inr 3)" by simp
  have r4: "raftLog_term ?L 4 = Inr (Inr 5)" by (simp add: ex_defs)
  have r5: "findConflictByTerm ?L 2 0 = Inr (0, 0)"
    by (simp add: ex_defs findConflictByTerm.simps)
  from z ev r3 r4 r5 show ?thesis by blast
qed

subsection \<open>The invariant and the operations on the cursors\<close>

text \<open>
  The chain of cursors is proved together with \<open>coherent\<close>: without it an append
  could leave a gap between the storage and the unstable entries, and
  \<open>lastIndex()\<close> could fall below \<open>committed\<close>.
\<close>

lemma validI:
  "lastIndex l = Inr li \<Longrightarrow> applied l \<le> applying l \<Longrightarrow> applying l \<le> committed l \<Longrightarrow>
   committed l \<le> li \<Longrightarrow> li < - 1 \<Longrightarrow>
   unat li + 1 = unat (offset (unstable l)) + length (entries (unstable l)) \<Longrightarrow>
   (\<And>s. snapshot (unstable l) = Some s \<Longrightarrow> Metadata_Index s \<le> committed l) \<Longrightarrow>
     chain l \<and> coherent l"
  by (simp add: chain_def coherent_def split: option.splits)

lemma validD:
  assumes "chain l" "coherent l"
  shows "\<exists>li. lastIndex l = Inr li \<and> applied l \<le> applying l \<and> applying l \<le> committed l \<and>
    committed l \<le> li \<and> li < - 1 \<and>
    unat li + 1 = unat (offset (unstable l)) + length (entries (unstable l)) \<and>
    (\<forall>s. snapshot (unstable l) = Some s \<longrightarrow> Metadata_Index s \<le> committed l)"
proof (cases "lastIndex l")
  case (Inl p)
  with assms show ?thesis by (simp add: chain_def)
next
  case (Inr li)
  with assms show ?thesis
    by (simp add: chain_def coherent_def split: option.splits)
qed

lemma lastIndex_cursor_update [simp]:
  "lastIndex (l\<lparr>committed := c\<rparr>) = lastIndex l"
  "lastIndex (l\<lparr>applying := a\<rparr>) = lastIndex l"
  "lastIndex (l\<lparr>applied := b\<rparr>) = lastIndex l"
  "lastIndex (l\<lparr>applyingEntsSize := n\<rparr>) = lastIndex l"
  "lastIndex (l\<lparr>applyingEntsPaused := f\<rparr>) = lastIndex l"
  "lastIndex (l\<lparr>leaderTerm := t\<rparr>) = lastIndex l"
  by (simp_all add: lastIndex_def split: option.splits)

lemma commitTo_chain_coherent:
  assumes "chain l" "coherent l" "commitTo l lt tocommit = Inr l'"
  shows "chain l' \<and> coherent l'"
proof -
  from assms(1,2) obtain li where v: "lastIndex l = Inr li" "applied l \<le> applying l"
    "applying l \<le> committed l" "committed l \<le> li" "li < - 1"
    "unat li + 1 = unat (offset (unstable l)) + length (entries (unstable l))"
    "\<forall>s. snapshot (unstable l) = Some s \<longrightarrow> Metadata_Index s \<le> committed l"
    using validD by blast
  show ?thesis
  proof (cases "lt = leaderTerm l \<and> committed l < min tocommit li")
    case False
    with assms(3) v(1) have "l' = l"
      by (auto simp: commitTo_def Let_def split: if_splits)
    with assms show ?thesis by simp
  next
    case True
    with assms(3) v(1) have l': "l' = l\<lparr>committed := min tocommit li\<rparr>"
      by (auto simp: commitTo_def Let_def split: if_splits)
    from True have c: "committed l \<le> tocommit" "committed l \<le> li" by auto
    have snap: "Metadata_Index s \<le> min tocommit li" if "snapshot (unstable l) = Some s" for s
    proof -
      from v(7) that have "Metadata_Index s \<le> committed l" by blast
      with c show ?thesis by (auto intro: order.trans)
    qed
    have app: "applying l \<le> min tocommit li"
      using v(3) c by (auto intro: order.trans)
    show ?thesis
      by (rule validI [of _ li]) (use v app snap in \<open>simp_all add: l'\<close>)
  qed
qed

lemma maybeCommit_chain_coherent:
  assumes "chain l" "coherent l" "maybeCommit l lt maxIndex t = Inr (l', b)"
  shows "chain l' \<and> coherent l'"
proof (cases "l' = l")
  case True
  with assms show ?thesis by simp
next
  case False
  with assms(3) have "commitTo l lt maxIndex = Inr l'"
    by (auto simp: maybeCommit_def split: sum.splits if_splits)
  with assms(1,2) show ?thesis by (rule commitTo_chain_coherent)
qed

lemma appliedTo_chain_coherent:
  assumes "chain l" "coherent l" "appliedTo l i sz = Inr l'"
  shows "chain l' \<and> coherent l'"
proof -
  from assms(1,2) obtain li where v: "lastIndex l = Inr li" "applied l \<le> applying l"
    "applying l \<le> committed l" "committed l \<le> li" "li < - 1"
    "unat li + 1 = unat (offset (unstable l)) + length (entries (unstable l))"
    "\<forall>s. snapshot (unstable l) = Some s \<longrightarrow> Metadata_Index s \<le> committed l"
    using validD by blast
  from assms(3) have range: "applied l \<le> i" "i \<le> committed l"
    by (auto simp: appliedTo_def split: if_splits)
  from assms(3) range have f: "applied l' = i" "applying l' = max (applying l) i"
    "committed l' = committed l" "unstable l' = unstable l" "lastIndex l' = lastIndex l"
    by (auto simp: appliedTo_def Let_def split: if_splits)
  show ?thesis
    by (rule validI [of _ li]) (use v range f in \<open>simp_all\<close>)
qed

lemma acceptApplying_chain_coherent:
  assumes "chain l" "coherent l" "applied l \<le> i" "acceptApplying l i sz allowUnstable = Inr l'"
  shows "chain l' \<and> coherent l'"
proof -
  from assms(1,2) obtain li where v: "lastIndex l = Inr li" "applied l \<le> applying l"
    "applying l \<le> committed l" "committed l \<le> li" "li < - 1"
    "unat li + 1 = unat (offset (unstable l)) + length (entries (unstable l))"
    "\<forall>s. snapshot (unstable l) = Some s \<longrightarrow> Metadata_Index s \<le> committed l"
    using validD by blast
  from assms(4) have range: "i \<le> committed l"
    by (auto simp: acceptApplying_def split: if_splits)
  from assms(4) range have f: "applied l' = applied l" "applying l' = i"
    "committed l' = committed l" "unstable l' = unstable l" "lastIndex l' = lastIndex l"
    by (auto simp: acceptApplying_def Let_def split: if_splits)
  show ?thesis
    by (rule validI [of _ li]) (use v range assms(3) f in \<open>simp_all\<close>)
qed

lemma restore_chain_coherent:
  assumes "chain l" "applying l \<le> Metadata_Index s" "Metadata_Index s < - 1"
  shows "chain (restore l s) \<and> coherent (restore l s)"
proof -
  from assms(1) have a: "applied l \<le> applying l"
    by (simp add: chain_def split: sum.splits)
  have li: "lastIndex (restore l s) = Inr (Metadata_Index s)"
    by (simp add: restore_def unstable_restore_def lastIndex_def maybeLastIndex_def)
  show ?thesis
    by (rule validI [of _ "Metadata_Index s"])
      (use a assms li in \<open>simp_all add: restore_def unstable_restore_def unat_plus_one\<close>)
qed

lemma newLogWithSize_chain_coherent:
  assumes "newLogWithSize (Some st) maxSize = Inr l"
    "storage_FirstIndex st = Inr fi" "storage_LastIndex st = Inr la"
    "1 \<le> fi" "fi \<le> la + 1" "la < - 1"
  shows "chain l \<and> coherent l \<and> applied l = fi - 1 \<and> applying l = fi - 1 \<and> committed l = fi - 1"
proof -
  have le: "fi - 1 \<le> la" using assms(4-6) by unat_arith
  from assms(1-3) have f: "applied l = fi - 1" "applying l = fi - 1" "committed l = fi - 1"
    "unstable l = \<lparr>snapshot = None, entries = [], offset = la + 1,
                  snapshotInProgress = False, offsetInProgress = la + 1\<rparr>"
    "storage l = st"
    by (auto simp: newLogWithSize_def split: sum.splits)
  have li: "lastIndex l = Inr la"
    using f assms(3) by (simp add: lastIndex_def maybeLastIndex_def)
  have "chain l \<and> coherent l"
    by (rule validI [of _ la]) (use f li le assms(6) in \<open>simp_all add: unat_plus_one\<close>)
  with f show ?thesis by simp
qed

subsection \<open>Appending to the unstable buffer\<close>

lemma maybeLastIndex_nonempty:
  "entries u \<noteq> [] \<Longrightarrow> unat (offset u) + length (entries u) \<le> 2 ^ 64 \<Longrightarrow>
     \<exists>x. maybeLastIndex u = Some x \<and> unat x = unat (offset u) + length (entries u) - 1"
  by (simp add: maybeLastIndex_def unat_last)

lemma term_known_le_last:
  assumes "chain l" "coherent l" "raftLog_term l i = Inr (Inr t)" "lastIndex l = Inr li"
  shows "i \<le> li"
proof -
  from assms(1,2,4) have v: "committed l \<le> li"
    "unat li + 1 = unat (offset (unstable l)) + length (entries (unstable l))"
    "\<forall>s. snapshot (unstable l) = Some s \<longrightarrow> Metadata_Index s \<le> committed l"
    using validD [of l] by auto
  show ?thesis
  proof (cases "maybeTerm (unstable l) i")
    case None
    with assms(3,4) show ?thesis
      by (auto simp: raftLog_term_def split: sum.splits if_splits)
  next
    case (Some t')
    show ?thesis
    proof (cases "offset (unstable l) \<le> i \<and> unat (i - offset (unstable l)) < length (entries (unstable l))")
      case True
      then have "unat (i - offset (unstable l)) = unat i - unat (offset (unstable l))"
        by (simp add: unat_sub)
      with True v(2) have "unat i \<le> unat li"
        by (simp add: word_le_nat_alt; arith)
      then show ?thesis by (simp add: word_le_nat_alt)
    next
      case False
      with Some obtain s where "snapshot (unstable l) = Some s" "i = Metadata_Index s"
        by (auto simp: maybeTerm_def split: option.splits if_splits)
      with v(1,3) show ?thesis by (auto intro: order.trans)
    qed
  qed
qed

lemma truncateAndAppend_facts:
  assumes "ents \<noteq> []" "a = Index (hd ents)"
    "unat a \<le> unat (offset u) + length (entries u)"
    "unat (offset u) + length (entries u) < 2 ^ 64"
    "truncateAndAppend u ents = Inr u'"
  shows "snapshot u' = snapshot u"
    and "offset u' = min (offset u) a"
    and "entries u' = take (unat a - unat (offset u)) (entries u) @ ents"
proof -
  from assms(1) obtain e es where ents: "ents = e # es" by (cases ents) auto
  with assms(2) have a: "a = Index e" by simp
  have sum: "unat (offset u + of_nat (length (entries u))) = unat (offset u) + length (entries u)"
    using assms(4) by (rule unat_add_of_nat)
  consider (extend) "a = offset u + of_nat (length (entries u))"
    | (replace) "a \<noteq> offset u + of_nat (length (entries u))" "a \<le> offset u"
    | (truncate) "a \<noteq> offset u + of_nat (length (entries u))" "\<not> a \<le> offset u"
    by blast
  then have "snapshot u' = snapshot u \<and> offset u' = min (offset u) a \<and>
    entries u' = take (unat a - unat (offset u)) (entries u) @ ents"
  proof cases
    case extend
    with sum have ua: "unat a = unat (offset u) + length (entries u)" by simp
    then have "offset u \<le> a" by (simp add: word_le_nat_alt)
    with assms(5) extend ua show ?thesis
      by (auto simp: truncateAndAppend_def ents a Let_def min_def)
  next
    case replace
    then have "unat a - unat (offset u) = 0" by (simp add: word_le_nat_alt)
    with assms(5) replace show ?thesis
      by (auto simp: truncateAndAppend_def ents a Let_def min_def)
  next
    case truncate
    then have lt: "offset u \<le> a" by simp
    then have "unat (a - offset u) = unat a - unat (offset u)" by (simp add: unat_sub)
    with assms(5) truncate lt show ?thesis
      by (auto simp: truncateAndAppend_def ents a Let_def min_def)
  qed
  then show "snapshot u' = snapshot u" "offset u' = min (offset u) a"
    "entries u' = take (unat a - unat (offset u)) (entries u) @ ents" by simp_all
qed

lemma truncateAndAppend_returns:
  "ents \<noteq> [] \<Longrightarrow> \<exists>u'. truncateAndAppend u ents = Inr u'"
  by (cases ents) (auto simp: truncateAndAppend_def Let_def)

lemma truncateAndAppend_end:
  assumes "ents \<noteq> []" "a = Index (hd ents)"
    "unat a \<le> unat (offset u) + length (entries u)"
    "unat (offset u) + length (entries u) < 2 ^ 64"
    "truncateAndAppend u ents = Inr u'"
  shows "unat (offset u') + length (entries u') = unat a + length ents"
proof -
  note f = truncateAndAppend_facts [OF assms]
  show ?thesis
  proof (cases "offset u \<le> a")
    case True
    then have "unat (offset u) \<le> unat a" by (simp add: word_le_nat_alt)
    with True assms(3) show ?thesis by (simp add: f min_def; arith)
  next
    case False
    then have "unat a - unat (offset u) = 0" "min (offset u) a = a"
      by (simp_all add: word_le_nat_alt min_def)
    then show ?thesis by (simp add: f)
  qed
qed

lemma maybeTerm_unstableEntry:
  "maybeTerm u i =
     (case unstableEntry u i of
        Some e \<Rightarrow> Some (Term e)
      | None \<Rightarrow>
          (case snapshot u of
             Some s \<Rightarrow> if i = Metadata_Index s then Some (Metadata_Term s) else None
           | None \<Rightarrow> None))"
  by (simp add: maybeTerm_def unstableEntry_def)

lemma truncateAndAppend_unstableEntry:
  assumes "ents \<noteq> []" "a = Index (hd ents)"
    "unat a \<le> unat (offset u) + length (entries u)"
    "unat (offset u) + length (entries u) < 2 ^ 64"
    "truncateAndAppend u ents = Inr u'" "i < a"
  shows "unstableEntry u' i = unstableEntry u i"
proof -
  note f = truncateAndAppend_facts [OF assms(1-5)]
  show ?thesis
  proof (cases "offset u \<le> i")
    case True
    with assms(6) have oa: "offset u \<le> a" "min (offset u) a = offset u"
      by (auto simp: min_def)
    from True assms(6) oa have lt: "unat (i - offset u) < unat a - unat (offset u)"
      by (simp add: unat_sub word_less_nat_alt word_le_nat_alt)
    with assms(3) have old: "unat (i - offset u) < length (entries u)" by simp
    from lt old have new: "unat (i - offset u) < length (take (unat a - unat (offset u)) (entries u) @ ents)"
      by simp
    from lt old have nth: "(take (unat a - unat (offset u)) (entries u) @ ents) ! unat (i - offset u)
        = entries u ! unat (i - offset u)"
      by (simp add: nth_append)
    from True old new nth show ?thesis
      by (simp add: unstableEntry_def f oa)
  next
    case False
    with assms(6) have "\<not> min (offset u) a \<le> i" by (auto simp: min_def)
    with False show ?thesis by (simp add: unstableEntry_def f)
  qed
qed

lemma truncateAndAppend_maybeTerm:
  assumes "ents \<noteq> []" "a = Index (hd ents)"
    "unat a \<le> unat (offset u) + length (entries u)"
    "unat (offset u) + length (entries u) < 2 ^ 64"
    "truncateAndAppend u ents = Inr u'" "i < a"
  shows "maybeTerm u' i = maybeTerm u i"
  using truncateAndAppend_unstableEntry [OF assms] truncateAndAppend_facts(1) [OF assms(1-5)]
  by (simp add: maybeTerm_unstableEntry cong: option.case_cong)

lemma firstIndex_unstable_update:
  "snapshot u' = snapshot (unstable l) \<Longrightarrow>
     firstIndex (l\<lparr>leaderTerm := lt, unstable := u'\<rparr>) = firstIndex l"
  by (simp add: firstIndex_def maybeFirstIndex_def split: option.splits)

text \<open>What an append that reaches \<open>truncateAndAppend\<close> does to the log.\<close>

lemma append_effect:
  assumes v: "chain l" "coherent l" "lastIndex l = Inr li"
    and e: "ents \<noteq> []" "\<not> lt < leaderTerm l"
    and pre: "0 < Index (hd ents)" "Index (hd ents) \<le> li + 1"
      "unat (Index (hd ents)) + length ents < 2 ^ 64"
    and run: "raftLog_append l lt ents = Inr (l', r)"
  shows "\<exists>u' x. truncateAndAppend (unstable l) ents = Inr u' \<and>
           l' = l\<lparr>leaderTerm := lt, unstable := u'\<rparr> \<and>
           lastIndex l' = Inr x \<and> r = x \<and>
           unat x + 1 = unat (Index (hd ents)) + length ents \<and>
           unat (offset u') + length (entries u') = unat (Index (hd ents)) + length ents \<and>
           snapshot u' = snapshot (unstable l) \<and>
           committed l \<le> x \<and>
           (\<forall>i. i < Index (hd ents) \<longrightarrow>
                unstableEntry u' i = unstableEntry (unstable l) i \<and>
                maybeTerm u' i = maybeTerm (unstable l) i)"
proof -
  let ?a = "Index (hd ents)"
  let ?u = "unstable l"
  from v have c: "li < - 1"
    "unat li + 1 = unat (offset ?u) + length (entries ?u)"
    using validD [of l] by auto
  from c have bound: "unat (offset ?u) + length (entries ?u) < 2 ^ 64"
    by (simp add: lt_max_iff)
  from pre(2) c have nogap: "unat ?a \<le> unat (offset ?u) + length (entries ?u)"
    by (simp add: word_le_nat_alt unat_plus_one)
  from run e have guard: "\<not> ?a - 1 < committed l"
    by (auto simp: raftLog_append_def split: if_splits)
  from truncateAndAppend_returns [OF e(1)] obtain u'
    where u': "truncateAndAppend ?u ents = Inr u'" by blast
  note f = truncateAndAppend_facts [OF e(1) refl nogap bound u']
  note en = truncateAndAppend_end [OF e(1) refl nogap bound u']
  from f(3) e(1) have ne: "entries u' \<noteq> []" by simp
  from en pre(3) have "unat (offset u') + length (entries u') \<le> 2 ^ 64" by simp
  from maybeLastIndex_nonempty [OF ne this] obtain x
    where x: "maybeLastIndex u' = Some x" "unat x = unat (offset u') + length (entries u') - 1"
    by blast
  let ?l' = "l\<lparr>leaderTerm := lt, unstable := u'\<rparr>"
  have li': "lastIndex ?l' = Inr x" by (simp add: lastIndex_def x)
  from run e guard u' li' have l': "l' = ?l'" "r = x"
    by (auto simp: raftLog_append_def Let_def split: if_splits)
  from x(2) en e(1) have xe: "unat x + 1 = unat ?a + length ents"
    by (cases ents) simp_all
  from pre(1) have "unat (?a - 1) = unat ?a - 1"
    by (simp add: unat_minus_one word_greater_zero_iff)
  with guard have "unat (committed l) \<le> unat ?a - 1"
    by (simp add: word_less_nat_alt)
  with xe e(1) have cx: "committed l \<le> x"
    by (cases ents) (simp_all add: word_le_nat_alt)
  have mt: "\<forall>i. i < ?a \<longrightarrow>
      unstableEntry u' i = unstableEntry ?u i \<and> maybeTerm u' i = maybeTerm ?u i"
    using truncateAndAppend_maybeTerm [OF e(1) refl nogap bound u']
      truncateAndAppend_unstableEntry [OF e(1) refl nogap bound u'] by blast
  from u' l' li' xe en f(1) cx mt show ?thesis by blast
qed

lemma append_chain_coherent:
  assumes v: "chain l" "coherent l" "lastIndex l = Inr li"
    and pre: "ents \<noteq> [] \<longrightarrow> 0 < Index (hd ents) \<and> Index (hd ents) \<le> li + 1 \<and>
      unat (Index (hd ents)) + length ents < 2 ^ 64"
    and run: "raftLog_append l lt ents = Inr (l', r)"
  shows "chain l' \<and> coherent l'"
proof (cases "ents \<noteq> [] \<and> \<not> lt < leaderTerm l")
  case False
  with run have "l' = l"
    by (auto simp: raftLog_append_def split: if_splits sum.splits)
  with v show ?thesis by simp
next
  case True
  with pre have p: "0 < Index (hd ents)" "Index (hd ents) \<le> li + 1"
    "unat (Index (hd ents)) + length ents < 2 ^ 64" by auto
  from True have e: "ents \<noteq> []" "\<not> lt < leaderTerm l" by auto
  from append_effect [OF v e p run] obtain u' x where
    f: "l' = l\<lparr>leaderTerm := lt, unstable := u'\<rparr>" "lastIndex l' = Inr x"
      "unat x + 1 = unat (Index (hd ents)) + length ents"
      "unat (offset u') + length (entries u') = unat (Index (hd ents)) + length ents"
      "snapshot u' = snapshot (unstable l)" "committed l \<le> x"
    by blast
  from v have c: "applied l \<le> applying l" "applying l \<le> committed l"
    "\<forall>s. snapshot (unstable l) = Some s \<longrightarrow> Metadata_Index s \<le> committed l"
    using validD [of l] by auto
  from f(3) p(3) have xm: "x < - 1" by (simp add: lt_max_iff)
  show ?thesis
    by (rule validI [of _ x]) (use f c xm in \<open>simp_all\<close>)
qed

lemma append_term_preserved:
  assumes v: "chain l" "coherent l" "lastIndex l = Inr li"
    and e: "ents \<noteq> []" "\<not> lt < leaderTerm l"
    and pre: "0 < Index (hd ents)" "Index (hd ents) \<le> li + 1"
      "unat (Index (hd ents)) + length ents < 2 ^ 64"
    and run: "raftLog_append l lt ents = Inr (l', r)"
    and i: "i < Index (hd ents)"
  shows "storage l' = storage l \<and>
         unstableEntry (unstable l') i = unstableEntry (unstable l) i \<and>
         raftLog_term l' i = raftLog_term l i"
proof -
  from append_effect [OF v e pre run] obtain u' x where
    f: "l' = l\<lparr>leaderTerm := lt, unstable := u'\<rparr>" "lastIndex l' = Inr x"
      "unat x + 1 = unat (Index (hd ents)) + length ents"
      "snapshot u' = snapshot (unstable l)"
      "\<forall>i. i < Index (hd ents) \<longrightarrow>
           unstableEntry u' i = unstableEntry (unstable l) i \<and>
           maybeTerm u' i = maybeTerm (unstable l) i"
    by blast
  from v have c: "li < - 1" using validD [of l] by auto
  from i pre(2) c have old: "\<not> li < i"
    by (simp add: word_le_nat_alt word_less_nat_alt unat_plus_one)
  from i f(3) e(1) have new: "\<not> x < i"
    by (cases ents) (simp_all add: word_less_nat_alt)
  have fi: "firstIndex l' = firstIndex l"
    unfolding f(1) using f(4) by (rule firstIndex_unstable_update)
  have mt: "maybeTerm (unstable l') i = maybeTerm (unstable l) i"
    using f(5) i by (simp add: f(1))
  have ue: "unstableEntry (unstable l') i = unstableEntry (unstable l) i"
    using f(5) i by (simp add: f(1))
  have st: "storage l' = storage l" by (simp add: f(1))
  have "raftLog_term l' i = raftLog_term l i"
    using old new v(3) f(2)
    by (simp add: raftLog_term_def fi mt st split: option.splits sum.splits)
  with st ue show ?thesis by simp
qed

lemma firstIndex_committed_update [simp]:
  "firstIndex (l\<lparr>committed := c\<rparr>) = firstIndex l"
  by (simp add: firstIndex_def split: option.splits)

lemma raftLog_term_committed_update [simp]:
  "raftLog_term (l\<lparr>committed := c\<rparr>) i = raftLog_term l i"
  by (simp add: raftLog_term_def cong: option.case_cong sum.case_cong if_cong)

lemma commitTo_term_preserved:
  "commitTo l lt tocommit = Inr l' \<Longrightarrow>
     storage l' = storage l \<and> unstable l' = unstable l \<and> raftLog_term l' i = raftLog_term l i"
proof -
  assume "commitTo l lt tocommit = Inr l'"
  then have "l' = l \<or> (\<exists>c. l' = l\<lparr>committed := c\<rparr>)"
    by (auto simp: commitTo_def Let_def split: if_splits sum.splits)
  then show ?thesis by auto
qed

subsection \<open>stableTo\<close>

text \<open>
  When \<open>stableTo(i, t)\<close> releases the last unstable entry, \<open>lastIndex()\<close> is read
  from the storage: the entries through \<open>i\<close> must have been persisted before the
  call.
\<close>

lemma stableTo_chain_coherent:
  assumes v: "chain l" "coherent l"
    and pre: "lastIndex l = Inr i \<longrightarrow> storage_LastIndex (storage l) = Inr i"
  shows "chain (stableTo l i t) \<and> coherent (stableTo l i t)"
proof -
  let ?u = "unstable l"
  let ?k = "unat (i - offset ?u)"
  from v obtain li where c: "lastIndex l = Inr li" "applied l \<le> applying l"
    "applying l \<le> committed l" "committed l \<le> li" "li < - 1"
    "unat li + 1 = unat (offset ?u) + length (entries ?u)"
    "\<forall>s. snapshot ?u = Some s \<longrightarrow> Metadata_Index s \<le> committed l"
    using validD by blast
  show ?thesis
  proof (cases "i < offset ?u \<or> length (entries ?u) \<le> ?k \<or> Term (entries ?u ! ?k) \<noteq> t")
    case True
    then have "stableTo l i t = l"
      by (simp add: stableTo_def unstable_stableTo_def)
    with v show ?thesis by simp
  next
    case False
    then have acc: "offset ?u \<le> i" "?k < length (entries ?u)" by auto
    then have ui: "unat i = unat (offset ?u) + ?k"
      by (simp add: unat_sub word_le_nat_alt)
    with acc(2) c(5,6) have im: "i < - 1" by (simp add: lt_max_iff)
    let ?snap = "case snapshot ?u of
                   Some s \<Rightarrow> if Metadata_Index s \<le> i then None else Some s
                 | None \<Rightarrow> None"
    let ?u' = "?u\<lparr>snapshot := ?snap, entries := drop (?k + 1) (entries ?u), offset := i + 1,
                  offsetInProgress := max (offsetInProgress ?u) (i + 1)\<rparr>"
    from False have st: "stableTo l i t = l\<lparr>unstable := ?u'\<rparr>"
      by (simp add: stableTo_def unstable_stableTo_def)
    have snap: "Metadata_Index s \<le> committed l" if "?snap = Some s" for s
      using that c(7) by (auto split: option.splits if_splits)
    have co: "unat li + 1 = unat (i + 1) + length (drop (?k + 1) (entries ?u))"
      using ui acc(2) c(6) im by (simp add: unat_plus_one)
    have li': "lastIndex (l\<lparr>unstable := ?u'\<rparr>) = Inr li"
    proof (cases "?k + 1 < length (entries ?u)")
      case True
      then have ne: "entries ?u' \<noteq> []" by simp
      have "unat (offset ?u') + length (entries ?u') \<le> 2 ^ 64"
        using co c(5) by (simp add: lt_max_iff)
      from maybeLastIndex_nonempty [OF ne this] co obtain x
        where x: "maybeLastIndex ?u' = Some x" "unat x = unat li"
        by auto
      then have "x = li" by (simp add: word_unat_eq_iff)
      with x show ?thesis by (simp add: lastIndex_def)
    next
      case False
      with acc(2) have last: "?k + 1 = length (entries ?u)" by simp
      with ui c(6) have "unat i = unat li" by simp
      then have eq: "i = li" by (simp add: word_unat_eq_iff)
      have "?snap = None"
      proof (cases "snapshot ?u")
        case None
        then show ?thesis by simp
      next
        case (Some s)
        with c(7) c(4) eq have "Metadata_Index s \<le> i" by (auto intro: order.trans)
        with Some show ?thesis by simp
      qed
      with last have "maybeLastIndex ?u' = None"
        by (simp add: maybeLastIndex_def)
      moreover from pre c(1) eq have "storage_LastIndex (storage l) = Inr li" by simp
      ultimately show ?thesis by (simp add: lastIndex_def)
    qed
    have "chain (l\<lparr>unstable := ?u'\<rparr>) \<and> coherent (l\<lparr>unstable := ?u'\<rparr>)"
      by (rule validI [of _ li]) (use c li' co snap in \<open>simp_all\<close>)
    with st show ?thesis by simp
  qed
qed

subsection \<open>maybeAppend: the result\<close>

text \<open>
  The unstable buffer is not empty after \<open>truncateAndAppend\<close>, and \<open>lastIndex()\<close>
  of a log with unstable entries does not read the storage.
\<close>

lemma truncateAndAppend_nonempty:
  "truncateAndAppend u ents = Inr u' \<Longrightarrow> entries u' \<noteq> []"
  by (cases ents) (auto simp: truncateAndAppend_def Let_def split: if_splits)

lemma lastIndex_nonempty:
  "entries (unstable l) \<noteq> [] \<Longrightarrow> \<exists>li. lastIndex l = Inr li"
  by (simp add: lastIndex_def maybeLastIndex_def)

text \<open>
  Past its guards \<open>append\<close> returns: with no entries when \<open>lastIndex()\<close> returns,
  with entries always.
\<close>

lemma append_returns:
  assumes "\<not> lt < leaderTerm l" "\<exists>li. lastIndex l = Inr li"
    "ents = [] \<or> (\<not> Index (hd ents) - 1 < committed l \<and> \<not> lt < Term (last ents))"
  shows "\<exists>l' r. raftLog_append l lt ents = Inr (l', r) \<and> (\<exists>li. lastIndex l' = Inr li) \<and>
           (l' = l \<or> leaderTerm l' = lt)"
proof (cases "ents = []")
  case True
  with assms(1,2) show ?thesis by (auto simp: raftLog_append_def)
next
  case False
  with assms(3) have g: "\<not> Index (hd ents) - 1 < committed l" "\<not> lt < Term (last ents)"
    by auto
  from truncateAndAppend_returns [OF False] obtain u'
    where u': "truncateAndAppend (unstable l) ents = Inr u'" by blast
  let ?l' = "l\<lparr>leaderTerm := lt, unstable := u'\<rparr>"
  from truncateAndAppend_nonempty [OF u'] have "entries (unstable ?l') \<noteq> []" by simp
  from lastIndex_nonempty [OF this] obtain li where li: "lastIndex ?l' = Inr li" by blast
  from assms(1) False g u' li have "raftLog_append l lt ents = Inr (?l', li)"
    by (simp add: raftLog_append_def Let_def)
  with li show ?thesis by auto
qed

lemma commitTo_returns:
  "\<exists>li. lastIndex l = Inr li \<Longrightarrow> \<exists>l'. commitTo l lt tocommit = Inr l'"
  by (auto simp: commitTo_def Let_def)

text \<open>
  C2 (as amended). \<open>maybeAppend(leaderTerm, prevIndex, prevTerm, committed, ents)\<close>
  returns \<open>(0, false)\<close> and leaves the log unchanged if \<open>leaderTerm\<close> is below the
  log's \<open>leaderTerm\<close>, or if \<open>matchTerm(prevIndex, prevTerm)\<close> is false. Otherwise it
  returns \<open>(prevIndex + len(ents), true)\<close>, except that it panics in exactly these
  cases: \<open>matchTerm\<close> or \<open>findConflict\<close> panics on a failure of the storage; the
  conflict index \<open>ci = findConflict(ents)\<close> has \<open>0 < ci \<le> committed\<close>; \<open>ci\<close> is above
  \<open>committed\<close> and \<open>ci - (prevIndex + 1)\<close> exceeds \<open>len(ents)\<close>; or the entries
  \<open>rest = ents[ci - (prevIndex + 1):]\<close> that go to \<open>append\<close> are not empty and have
  \<open>rest[0].Index - 1\<close> below \<open>committed\<close> or, failing that, a last term above
  \<open>leaderTerm\<close>.
\<close>

theorem maybeAppend_result:
  "(lt < leaderTerm l \<longrightarrow>
      maybeAppend l lt prevIndex prevTerm commit ents = Inr (l, 0, False)) \<and>
   (matchTerm l prevIndex prevTerm = Inr False \<longrightarrow>
      maybeAppend l lt prevIndex prevTerm commit ents = Inr (l, 0, False)) \<and>
   (\<not> lt < leaderTerm l \<longrightarrow> (\<forall>q. matchTerm l prevIndex prevTerm = Inl q \<longrightarrow>
      maybeAppend l lt prevIndex prevTerm commit ents = Inl q)) \<and>
   (\<not> lt < leaderTerm l \<longrightarrow> matchTerm l prevIndex prevTerm = Inr True \<longrightarrow>
      (\<forall>q. findConflict l ents = Inl q \<longrightarrow>
         maybeAppend l lt prevIndex prevTerm commit ents = Inl q) \<and>
      (\<forall>ci. findConflict l ents = Inr ci \<longrightarrow>
         (let rest = drop (unat (ci - (prevIndex + 1))) ents in
          if ci = 0
          then \<exists>l'. maybeAppend l lt prevIndex prevTerm commit ents
                      = Inr (l', prevIndex + of_nat (length ents), True)
          else if ci \<le> committed l
          then maybeAppend l lt prevIndex prevTerm commit ents
                 = Inl (ConflictWithCommitted ci (committed l))
          else if of_nat (length ents) < ci - (prevIndex + 1)
          then maybeAppend l lt prevIndex prevTerm commit ents
                 = Inl (IndexOutOfRange (ci - (prevIndex + 1)) (length ents))
          else if rest = []
          then \<exists>l'. maybeAppend l lt prevIndex prevTerm commit ents
                      = Inr (l', prevIndex + of_nat (length ents), True)
          else if Index (hd rest) - 1 < committed l
          then maybeAppend l lt prevIndex prevTerm commit ents
                 = Inl (AfterOutOfRange (Index (hd rest) - 1) (committed l))
          else if lt < Term (last rest)
          then maybeAppend l lt prevIndex prevTerm commit ents
                 = Inl (AppendHigherTerm lt (Term (last rest)))
          else \<exists>l'. maybeAppend l lt prevIndex prevTerm commit ents
                      = Inr (l', prevIndex + of_nat (length ents), True))))"
proof -
  have c1: "lt < leaderTerm l \<longrightarrow>
      maybeAppend l lt prevIndex prevTerm commit ents = Inr (l, 0, False)"
    by (simp add: maybeAppend_def)
  have c2: "matchTerm l prevIndex prevTerm = Inr False \<longrightarrow>
      maybeAppend l lt prevIndex prevTerm commit ents = Inr (l, 0, False)"
    by (simp add: maybeAppend_def)
  have c3: "\<not> lt < leaderTerm l \<longrightarrow> (\<forall>q. matchTerm l prevIndex prevTerm = Inl q \<longrightarrow>
      maybeAppend l lt prevIndex prevTerm commit ents = Inl q)"
    by (simp add: maybeAppend_def)
  have c4: "(\<forall>q. findConflict l ents = Inl q \<longrightarrow>
         maybeAppend l lt prevIndex prevTerm commit ents = Inl q) \<and>
      (\<forall>ci. findConflict l ents = Inr ci \<longrightarrow>
         (let rest = drop (unat (ci - (prevIndex + 1))) ents in
          if ci = 0
          then \<exists>l'. maybeAppend l lt prevIndex prevTerm commit ents
                      = Inr (l', prevIndex + of_nat (length ents), True)
          else if ci \<le> committed l
          then maybeAppend l lt prevIndex prevTerm commit ents
                 = Inl (ConflictWithCommitted ci (committed l))
          else if of_nat (length ents) < ci - (prevIndex + 1)
          then maybeAppend l lt prevIndex prevTerm commit ents
                 = Inl (IndexOutOfRange (ci - (prevIndex + 1)) (length ents))
          else if rest = []
          then \<exists>l'. maybeAppend l lt prevIndex prevTerm commit ents
                      = Inr (l', prevIndex + of_nat (length ents), True)
          else if Index (hd rest) - 1 < committed l
          then maybeAppend l lt prevIndex prevTerm commit ents
                 = Inl (AfterOutOfRange (Index (hd rest) - 1) (committed l))
          else if lt < Term (last rest)
          then maybeAppend l lt prevIndex prevTerm commit ents
                 = Inl (AppendHigherTerm lt (Term (last rest)))
          else \<exists>l'. maybeAppend l lt prevIndex prevTerm commit ents
                      = Inr (l', prevIndex + of_nat (length ents), True)))"
    if fresh: "\<not> lt < leaderTerm l" and mt: "matchTerm l prevIndex prevTerm = Inr True"
  proof (intro conjI allI impI)
    fix q assume "findConflict l ents = Inl q"
    with fresh mt show "maybeAppend l lt prevIndex prevTerm commit ents = Inl q"
      by (simp add: maybeAppend_def)
  next
    fix ci assume fc: "findConflict l ents = Inr ci"
    let ?rest = "drop (unat (ci - (prevIndex + 1))) ents"
    let ?n = "prevIndex + of_nat (length ents)"
    from mt have known: "\<exists>li. lastIndex l = Inr li"
      using term_known_lastIndex [of l prevIndex prevTerm]
      by (auto simp: matchTerm_def split: sum.splits)
    have accept: "\<exists>l'. maybeAppend l lt prevIndex prevTerm commit ents = Inr (l', ?n, True)"
      if nz: "ci \<noteq> 0" and above: "\<not> ci \<le> committed l"
        and fits: "\<not> of_nat (length ents) < ci - (prevIndex + 1)"
        and g: "?rest = [] \<or> (\<not> Index (hd ?rest) - 1 < committed l \<and> \<not> lt < Term (last ?rest))"
    proof -
      from append_returns [OF fresh known g] obtain l1 r
        where a: "raftLog_append l lt ?rest = Inr (l1, r)" "\<exists>li. lastIndex l1 = Inr li"
        by blast
      from commitTo_returns [OF a(2)] obtain l2
        where "commitTo l1 lt (min commit ?n) = Inr l2" by blast
      with fresh mt fc nz above fits a(1) show ?thesis
        by (simp add: maybeAppend_def Let_def)
    qed
    have present: "\<exists>l'. maybeAppend l lt prevIndex prevTerm commit ents = Inr (l', ?n, True)"
      if z: "ci = 0"
    proof -
      from commitTo_returns [OF known] obtain l2
        where "commitTo l lt (min commit ?n) = Inr l2" by blast
      with fresh mt fc z show ?thesis by (simp add: maybeAppend_def Let_def)
    qed
    have conflict: "maybeAppend l lt prevIndex prevTerm commit ents
        = Inl (ConflictWithCommitted ci (committed l))"
      if "ci \<noteq> 0" "ci \<le> committed l"
      using that fresh mt fc by (simp add: maybeAppend_def Let_def)
    have range: "maybeAppend l lt prevIndex prevTerm commit ents
        = Inl (IndexOutOfRange (ci - (prevIndex + 1)) (length ents))"
      if "ci \<noteq> 0" "\<not> ci \<le> committed l" "of_nat (length ents) < ci - (prevIndex + 1)"
      using that fresh mt fc by (simp add: maybeAppend_def Let_def)
    have after: "maybeAppend l lt prevIndex prevTerm commit ents
        = Inl (AfterOutOfRange (Index (hd ?rest) - 1) (committed l))"
      if "ci \<noteq> 0" "\<not> ci \<le> committed l" "\<not> of_nat (length ents) < ci - (prevIndex + 1)"
        "?rest \<noteq> []" "Index (hd ?rest) - 1 < committed l"
      using that fresh mt fc by (simp add: maybeAppend_def raftLog_append_def Let_def)
    have higher: "maybeAppend l lt prevIndex prevTerm commit ents
        = Inl (AppendHigherTerm lt (Term (last ?rest)))"
      if "ci \<noteq> 0" "\<not> ci \<le> committed l" "\<not> of_nat (length ents) < ci - (prevIndex + 1)"
        "?rest \<noteq> []" "\<not> Index (hd ?rest) - 1 < committed l" "lt < Term (last ?rest)"
      using that fresh mt fc by (simp add: maybeAppend_def raftLog_append_def Let_def)
    show "let rest = drop (unat (ci - (prevIndex + 1))) ents in
          if ci = 0
          then \<exists>l'. maybeAppend l lt prevIndex prevTerm commit ents
                      = Inr (l', prevIndex + of_nat (length ents), True)
          else if ci \<le> committed l
          then maybeAppend l lt prevIndex prevTerm commit ents
                 = Inl (ConflictWithCommitted ci (committed l))
          else if of_nat (length ents) < ci - (prevIndex + 1)
          then maybeAppend l lt prevIndex prevTerm commit ents
                 = Inl (IndexOutOfRange (ci - (prevIndex + 1)) (length ents))
          else if rest = []
          then \<exists>l'. maybeAppend l lt prevIndex prevTerm commit ents
                      = Inr (l', prevIndex + of_nat (length ents), True)
          else if Index (hd rest) - 1 < committed l
          then maybeAppend l lt prevIndex prevTerm commit ents
                 = Inl (AfterOutOfRange (Index (hd rest) - 1) (committed l))
          else if lt < Term (last rest)
          then maybeAppend l lt prevIndex prevTerm commit ents
                 = Inl (AppendHigherTerm lt (Term (last rest)))
          else \<exists>l'. maybeAppend l lt prevIndex prevTerm commit ents
                      = Inr (l', prevIndex + of_nat (length ents), True)"
      unfolding Let_def
      using present conflict range after higher accept by presburger
  qed
  from c1 c2 c3 c4 show ?thesis by blast
qed

text \<open>
  A stale leader and a mismatch at \<open>prevIndex\<close> are rejected with the log unchanged.
  Entries that the log already holds are accepted. Scenario S1 of the
  specification, the entries 2 to 4 at term 2 over a log with \<open>committed = 1\<close>, is
  accepted with the result \<open>(4, true)\<close>; the log it leaves is computed as well. A
  conflict at index 3 with \<open>committed = 3\<close> is a panic.
\<close>

theorem maybeAppend_result_witness:
  "maybeAppend (exampleLog [ent 1 1, ent 2 1, ent 3 1] 3 1) 2 1 1 2 [ent 2 2, ent 3 2, ent 4 2]
     = Inr (exampleLog [ent 1 1, ent 2 1, ent 3 1] 3 1, 0, False) \<and>
   maybeAppend (exampleLog [ent 1 1, ent 2 1, ent 3 1] 1 1) 2 1 7 2 [ent 2 2, ent 3 2, ent 4 2]
     = Inr (exampleLog [ent 1 1, ent 2 1, ent 3 1] 1 1, 0, False) \<and>
   (\<exists>l'. maybeAppend (exampleLog [ent 1 1, ent 2 1, ent 3 1] 1 1) 1 1 1 3 [ent 2 1, ent 3 1]
            = Inr (l', 1 + of_nat (length [ent 2 1, ent 3 1]), True)) \<and>
   (\<exists>l'. maybeAppend (exampleLog [ent 1 1, ent 2 1, ent 3 1] 1 1) 2 1 1 2
              [ent 2 2, ent 3 2, ent 4 2]
            = Inr (l', 1 + of_nat (length [ent 2 2, ent 3 2, ent 4 2]), True)) \<and>
   maybeAppend (exampleLog [ent 1 1, ent 2 1, ent 3 1] 1 1) 2 1 1 2 [ent 2 2, ent 3 2, ent 4 2]
     = Inr ((exampleLog [ent 1 1, ent 2 1, ent 3 1] 1 1)
              \<lparr>unstable := \<lparr>snapshot = None, entries = [ent 2 2, ent 3 2, ent 4 2], offset = 2,
                            snapshotInProgress = False, offsetInProgress = 2\<rparr>,
               leaderTerm := 2, committed := 2\<rparr>, 4, True) \<and>
   maybeAppend (exampleLog [ent 1 1, ent 2 1, ent 3 1] 1 3) 2 2 1 3 [ent 3 2]
     = Inl (ConflictWithCommitted 3 3)"
proof -
  let ?E = "[ent 1 1, ent 2 1, ent 3 1]"
  let ?L = "exampleLog ?E 1 1"
  let ?A = "[ent 2 2, ent 3 2, ent 4 2]"
  note accepting = maybeAppend_result [THEN conjunct2, THEN conjunct2, THEN conjunct2,
      rule_format, THEN conjunct2, rule_format]
  have stale: "2 < leaderTerm (exampleLog ?E 3 1)"
    by (simp add: exampleLog_def)
  from maybeAppend_result [THEN conjunct1, rule_format, OF stale]
  have r1: "maybeAppend (exampleLog ?E 3 1) 2 1 1 2 ?A = Inr (exampleLog ?E 3 1, 0, False)" .
  have mismatch: "matchTerm ?L 1 7 = Inr False"
    by (simp add: ex_defs)
  from maybeAppend_result [THEN conjunct2, THEN conjunct1, rule_format, OF mismatch]
  have r2: "maybeAppend ?L 2 1 7 2 ?A = Inr (?L, 0, False)" .
  have p: "\<not> 1 < leaderTerm ?L" "matchTerm ?L 1 1 = Inr True"
    "findConflict ?L [ent 2 1, ent 3 1] = Inr 0"
    by (simp_all add: ex_defs)
  from accepting [OF p]
  have r3: "\<exists>l'. maybeAppend ?L 1 1 1 3 [ent 2 1, ent 3 1]
            = Inr (l', 1 + of_nat (length [ent 2 1, ent 3 1]), True)"
    by (simp add: Let_def)
  have s1: "\<not> 2 < leaderTerm ?L" "matchTerm ?L 1 1 = Inr True" "findConflict ?L ?A = Inr 2"
    by (simp_all add: ex_defs)
  have g1: "(2::u64) \<noteq> 0" "\<not> 2 \<le> committed ?L"
    "\<not> of_nat (length ?A) < (2::u64) - (1 + 1)"
    "drop (unat ((2::u64) - (1 + 1))) ?A = ?A"
    "\<not> Index (hd ?A) - 1 < committed ?L" "\<not> 2 < Term (last ?A)"
    by (simp_all add: exampleLog_def ent_def word_le_nat_alt word_less_nat_alt)
  from accepting [OF s1, of 2] g1
  have r4: "\<exists>l'. maybeAppend ?L 2 1 1 2 ?A = Inr (l', 1 + of_nat (length ?A), True)"
    by (simp add: Let_def)
  have r5: "maybeAppend ?L 2 1 1 2 ?A
     = Inr (?L\<lparr>unstable := \<lparr>snapshot = None, entries = ?A, offset = 2,
                            snapshotInProgress = False, offsetInProgress = 2\<rparr>,
               leaderTerm := 2, committed := 2\<rparr>, 4, True)"
    by (simp add: ex_defs maybeAppend_def raftLog_append_def truncateAndAppend_def commitTo_def
        word_le_nat_alt word_less_nat_alt)
  have c: "\<not> 2 < leaderTerm (exampleLog ?E 1 3)" "matchTerm (exampleLog ?E 1 3) 2 1 = Inr True"
    "findConflict (exampleLog ?E 1 3) [ent 3 2] = Inr 3"
    by (simp_all add: ex_defs)
  have g2: "(3::u64) \<noteq> 0" "3 \<le> committed (exampleLog ?E 1 3)"
    "committed (exampleLog ?E 1 3) = 3"
    by (simp_all add: exampleLog_def)
  from accepting [OF c, of 3] g2
  have r6: "maybeAppend (exampleLog ?E 1 3) 2 2 1 3 [ent 3 2] = Inl (ConflictWithCommitted 3 3)"
    by (simp add: Let_def)
  from r1 r2 r3 r4 r5 r6 show ?thesis by blast
qed

text \<open>
  The claim as stated fails: past the two rejections \<open>maybeAppend\<close> does not always
  return. Scenario S2 of the specification, a conflict at index 2 with
  \<open>committed = 3\<close>, is a panic. So are a conflict index beyond the entries, entries
  for \<open>append\<close> that start at or below \<open>committed\<close>, entries with a term above
  \<open>leaderTerm\<close>, and a storage that fails in \<open>matchTerm\<close> or in \<open>findConflict\<close>.
\<close>

theorem maybeAppend_result_counterexample:
  "\<not> 2 < leaderTerm (exampleLog [ent 1 1, ent 2 1, ent 3 1] 1 3) \<and>
   matchTerm (exampleLog [ent 1 1, ent 2 1, ent 3 1] 1 3) 1 1 = Inr True \<and>
   maybeAppend (exampleLog [ent 1 1, ent 2 1, ent 3 1] 1 3) 2 1 1 2 [ent 2 2, ent 3 2, ent 4 2]
     = Inl (ConflictWithCommitted 2 3) \<and>
   \<not> 1 < leaderTerm (exampleLog [ent 1 1, ent 2 1, ent 3 1] 1 1) \<and>
   matchTerm (exampleLog [ent 1 1, ent 2 1, ent 3 1] 1 1) 1 1 = Inr True \<and>
   maybeAppend (exampleLog [ent 1 1, ent 2 1, ent 3 1] 1 1) 1 1 1 0 [ent 9 1]
     = Inl (IndexOutOfRange 7 1) \<and>
   \<not> 1 < leaderTerm (exampleLog [ent 1 1, ent 2 1, ent 3 1] 1 2) \<and>
   matchTerm (exampleLog [ent 1 1, ent 2 1, ent 3 1] 1 2) 2 1 = Inr True \<and>
   maybeAppend (exampleLog [ent 1 1, ent 2 1, ent 3 1] 1 2) 1 2 1 0 [ent 4 1, ent 2 5]
     = Inl (AfterOutOfRange 1 2) \<and>
   \<not> 2 < leaderTerm (exampleLog [ent 1 1, ent 2 1, ent 3 1] 1 1) \<and>
   matchTerm (exampleLog [ent 1 1, ent 2 1, ent 3 1] 1 1) 3 1 = Inr True \<and>
   maybeAppend (exampleLog [ent 1 1, ent 2 1, ent 3 1] 1 1) 2 3 1 0 [ent 4 5]
     = Inl (AppendHigherTerm 2 5) \<and>
   matchTerm ((exampleLog [ent 1 1, ent 2 1, ent 3 1] 1 1)
                \<lparr>storage := termFailing [ent 1 1, ent 2 1, ent 3 1] (ErrOther ''disk'')\<rparr>) 1 1
     = Inl (PanicErr (ErrOther ''disk'')) \<and>
   maybeAppend ((exampleLog [ent 1 1, ent 2 1, ent 3 1] 1 1)
                  \<lparr>storage := termFailing [ent 1 1, ent 2 1, ent 3 1] (ErrOther ''disk'')\<rparr>)
       1 1 1 0 []
     = Inl (PanicErr (ErrOther ''disk'')) \<and>
   matchTerm ((exampleLog [ent 1 1, ent 2 1, ent 3 1] 1 1)
                \<lparr>storage := termFailing [ent 1 1, ent 2 1, ent 3 1] (ErrOther ''disk''),
                 unstable := \<lparr>snapshot = None, entries = [ent 4 1], offset = 4,
                              snapshotInProgress = False, offsetInProgress = 4\<rparr>\<rparr>) 4 1
     = Inr True \<and>
   findConflict ((exampleLog [ent 1 1, ent 2 1, ent 3 1] 1 1)
                \<lparr>storage := termFailing [ent 1 1, ent 2 1, ent 3 1] (ErrOther ''disk''),
                 unstable := \<lparr>snapshot = None, entries = [ent 4 1], offset = 4,
                              snapshotInProgress = False, offsetInProgress = 4\<rparr>\<rparr>) [ent 2 7]
     = Inl (PanicErr (ErrOther ''disk'')) \<and>
   maybeAppend ((exampleLog [ent 1 1, ent 2 1, ent 3 1] 1 1)
                \<lparr>storage := termFailing [ent 1 1, ent 2 1, ent 3 1] (ErrOther ''disk''),
                 unstable := \<lparr>snapshot = None, entries = [ent 4 1], offset = 4,
                              snapshotInProgress = False, offsetInProgress = 4\<rparr>\<rparr>)
       1 4 1 0 [ent 2 7]
     = Inl (PanicErr (ErrOther ''disk''))"
  by (simp add: ex_defs maybeAppend_def raftLog_append_def termFailing_def
      word_le_nat_alt word_less_nat_alt)

subsection \<open>maybeAppend: conflicts and committed entries\<close>

text \<open>
  On entries with consecutive indices after a known index, a non-zero answer of
  \<open>findConflict\<close> is the index of the first entry of the rest that \<open>maybeAppend\<close>
  passes on to \<open>append\<close>, and the index before it is known to the log.
\<close>

lemma findConflict_contiguous:
  assumes "contiguous p ents" "unat p + length ents < 2 ^ 64"
    "\<exists>t. raftLog_term l p = Inr (Inr t)"
    "findConflict l ents = Inr ci" "ci \<noteq> 0"
  shows "p < ci \<and> unat (ci - (p + 1)) < length ents \<and>
         unat ci + length (drop (unat (ci - (p + 1))) ents) = unat p + 1 + length ents \<and>
         Index (hd (drop (unat (ci - (p + 1))) ents)) = ci \<and>
         (\<exists>t. raftLog_term l (ci - 1) = Inr (Inr t))"
  using assms
proof (induction ents arbitrary: p)
  case Nil
  then show ?case by simp
next
  case (Cons e es)
  from Cons.prems(1) have idx: "Index e = p + 1" and rest: "contiguous (p + 1) es" by simp_all
  from Cons.prems(2) have pm: "p < - 1" by (simp add: lt_max_iff)
  then have up: "unat (p + 1) = unat p + 1" by (rule unat_plus_one)
  then have plt: "p < p + 1" by (simp add: word_less_nat_alt)
  show ?case
  proof (cases "matchTerm l (Index e) (Term e) = Inr True")
    case True
    with Cons.prems(4) have fc: "findConflict l es = Inr ci" by simp
    from True have known: "\<exists>t. raftLog_term l (p + 1) = Inr (Inr t)"
      by (auto simp: matchTerm_def idx split: sum.splits)
    from Cons.prems(2) up have b: "unat (p + 1) + length es < 2 ^ 64" by simp
    note ih = Cons.IH [OF rest b known fc Cons.prems(5)]
    from ih have lt: "p + 1 < ci" by simp
    with plt have "p < ci" by (rule less_trans)
    moreover have d: "unat (ci - (p + 1)) = Suc (unat (ci - (p + 1 + 1)))"
    proof -
      from lt have "p + 1 < - 1" by (rule less_le_trans) simp
      then have u2: "unat (p + 1 + 1) = unat (p + 1) + 1" by (rule unat_plus_one)
      from lt have l1: "unat (p + 1) < unat ci" by (simp add: word_less_nat_alt)
      with u2 have "p + 1 + 1 \<le> ci" by (simp add: word_le_nat_alt)
      then have "unat (ci - (p + 1 + 1)) = unat ci - unat (p + 1 + 1)" by (rule unat_sub)
      moreover from lt have "unat (ci - (p + 1)) = unat ci - unat (p + 1)"
        by (intro unat_sub) simp
      ultimately show ?thesis using u2 l1 by simp
    qed
    moreover from ih have "unat (ci - (p + 1 + 1)) < length es" by simp
    ultimately show ?thesis using ih up by (simp add: d)
  next
    case False
    with Cons.prems(4) have ci: "ci = Index e"
      by (auto split: sum.splits bool.splits if_splits)
    with idx have "ci - (p + 1) = 0" "ci - 1 = p" by simp_all
    with ci idx plt up Cons.prems(3) show ?thesis by simp
  qed
qed

text \<open>The three ways in which \<open>maybeAppend\<close> returns.\<close>

lemma maybeAppend_cases:
  assumes "maybeAppend l lt p pt commit ents = Inr (l', n, ok)"
  shows "l' = l
    \<or> (matchTerm l p pt = Inr True \<and> findConflict l ents = Inr 0 \<and>
        commitTo l lt (min commit (p + of_nat (length ents))) = Inr l')
    \<or> (\<exists>ci l1 r. matchTerm l p pt = Inr True \<and> \<not> lt < leaderTerm l \<and>
          findConflict l ents = Inr ci \<and> ci \<noteq> 0 \<and> \<not> ci \<le> committed l \<and>
          raftLog_append l lt (drop (unat (ci - (p + 1))) ents) = Inr (l1, r) \<and>
          commitTo l1 lt (min commit (p + of_nat (length ents))) = Inr l')"
proof (cases "lt < leaderTerm l")
  case True
  with assms show ?thesis by (simp add: maybeAppend_def)
next
  case fresh: False
  show ?thesis
  proof (cases "matchTerm l p pt")
    case (Inl q)
    with assms fresh show ?thesis by (simp add: maybeAppend_def)
  next
    case (Inr m)
    show ?thesis
    proof (cases m)
      case False
      with Inr have "matchTerm l p pt = Inr False" by simp
      with assms fresh show ?thesis by (simp add: maybeAppend_def)
    next
      case True
      with Inr have mt: "matchTerm l p pt = Inr True" by simp
      show ?thesis
      proof (cases "findConflict l ents")
        case (Inl q)
        with assms fresh mt show ?thesis by (simp add: maybeAppend_def)
      next
        case fc: (Inr ci)
        show ?thesis
        proof (cases "ci = 0")
          case True
          with assms fresh mt fc show ?thesis
            by (auto simp: maybeAppend_def Let_def split: sum.splits)
        next
          case nz: False
          show ?thesis
          proof (cases "ci \<le> committed l")
            case True
            with assms fresh mt fc nz show ?thesis
              by (simp add: maybeAppend_def Let_def)
          next
            case above: False
            show ?thesis
            proof (cases "of_nat (length ents) < ci - (p + 1)")
              case True
              with assms fresh mt fc nz above show ?thesis
                by (simp add: maybeAppend_def Let_def)
            next
              case False
              show ?thesis
              proof (cases "raftLog_append l lt (drop (unat (ci - (p + 1))) ents)")
                case (Inl q)
                with assms fresh mt fc nz above False show ?thesis
                  by (simp add: maybeAppend_def Let_def)
              next
                case (Inr res)
                obtain l1 r where res: "res = (l1, r)" by (cases res)
                with assms fresh mt fc nz above False Inr
                have "commitTo l1 lt (min commit (p + of_nat (length ents))) = Inr l'"
                  by (auto simp: maybeAppend_def Let_def split: sum.splits)
                with fresh mt fc nz above False Inr res show ?thesis by blast
              qed
            qed
          qed
        qed
      qed
    qed
  qed
qed

text \<open>
  An append of consecutive entries keeps the invariant, and below or at
  \<open>committed\<close> it changes neither the entries nor the terms of the log.
\<close>

lemma maybeAppend_effect:
  assumes v: "chain l" "coherent l"
    and pre: "contiguous p ents" "unat p + length ents + 1 < 2 ^ 64"
    and run: "maybeAppend l lt p pt commit ents = Inr (l', n, ok)"
  shows "chain l' \<and> coherent l' \<and> storage l' = storage l \<and>
         (\<forall>i. i \<le> committed l \<longrightarrow>
              unstableEntry (unstable l') i = unstableEntry (unstable l) i \<and>
              raftLog_term l' i = raftLog_term l i)"
proof -
  from maybeAppend_cases [OF run]
  consider (same) "l' = l"
    | (present) "commitTo l lt (min commit (p + of_nat (length ents))) = Inr l'"
    | (appended) ci l1 r where "matchTerm l p pt = Inr True" "\<not> lt < leaderTerm l"
        "findConflict l ents = Inr ci" "ci \<noteq> 0" "\<not> ci \<le> committed l"
        "raftLog_append l lt (drop (unat (ci - (p + 1))) ents) = Inr (l1, r)"
        "commitTo l1 lt (min commit (p + of_nat (length ents))) = Inr l'"
    by blast
  then show ?thesis
  proof cases
    case same
    with v show ?thesis by simp
  next
    case present
    from commitTo_chain_coherent [OF v present] commitTo_term_preserved [OF present]
    show ?thesis by simp
  next
    case appended
    let ?ents = "drop (unat (ci - (p + 1))) ents"
    from v obtain li where li: "lastIndex l = Inr li" "li < - 1"
      using validD by blast
    from appended(1) have known: "\<exists>t. raftLog_term l p = Inr (Inr t)"
      by (auto simp: matchTerm_def split: sum.splits)
    from pre(2) have b: "unat p + length ents < 2 ^ 64" by simp
    from findConflict_contiguous [OF pre(1) b known appended(3,4)]
    have f: "unat (ci - (p + 1)) < length ents"
      "unat ci + length ?ents = unat p + 1 + length ents"
      "Index (hd ?ents) = ci" "\<exists>t. raftLog_term l (ci - 1) = Inr (Inr t)"
      by simp_all
    from f(1) have ne: "?ents \<noteq> []" by simp
    from appended(4) have pos: "0 < ci" by (simp add: word_greater_zero_iff)
    from f(4) obtain t where "raftLog_term l (ci - 1) = Inr (Inr t)" by blast
    from term_known_le_last [OF v this li(1)] have "ci - 1 \<le> li" .
    with pos li(2) have nogap: "ci \<le> li + 1"
      by (simp add: word_le_nat_alt unat_plus_one unat_minus_one word_greater_zero_iff)
    from f(2) pre(2) have nowrap: "unat ci + length ?ents < 2 ^ 64" by simp
    have p1: "0 < Index (hd ?ents)" using pos by (simp add: f(3))
    have p2: "Index (hd ?ents) \<le> li + 1" using nogap by (simp add: f(3))
    have p3: "unat (Index (hd ?ents)) + length ?ents < 2 ^ 64" using nowrap by (simp only: f(3))
    have pre': "?ents \<noteq> [] \<longrightarrow> 0 < Index (hd ?ents) \<and> Index (hd ?ents) \<le> li + 1 \<and>
      unat (Index (hd ?ents)) + length ?ents < 2 ^ 64"
      using p1 p2 p3 by blast
    from append_chain_coherent [OF v li(1) pre' appended(6)]
    have v1: "chain l1" "coherent l1" by simp_all
    have t1: "storage l1 = storage l \<and>
        unstableEntry (unstable l1) i = unstableEntry (unstable l) i \<and>
        raftLog_term l1 i = raftLog_term l i" if "i \<le> committed l" for i
    proof -
      from that appended(5) have "i < Index (hd ?ents)" by (simp add: f(3))
      from append_term_preserved [OF v li(1) ne appended(2) p1 p2 p3 appended(6) this]
      show ?thesis .
    qed
    have "storage l1 = storage l" using t1 [of 0] by simp
    with commitTo_chain_coherent [OF v1 appended(7)] commitTo_term_preserved [OF appended(7)] t1
    show ?thesis by simp
  qed
qed

lemmas op_defs = chain_def coherent_def commitTo_def appliedTo_def acceptApplying_def
  maxAppliableIndex_def restore_def unstable_restore_def maybeAppend_def raftLog_append_def
  truncateAndAppend_def newLogWithSize_def noLimit_def word_le_nat_alt word_less_nat_alt
  unat_max64

text \<open>
  In \<open>maybeAppend\<close>, past the two rejections, a first conflicting index \<open>ci\<close> of
  \<open>findConflict\<close> with \<open>0 < ci \<le> committed\<close> is a panic. For entries with
  consecutive indices after \<open>prevIndex\<close> (none reaching the largest 64-bit index),
  in a log that satisfies the invariants, an accepted append leaves the storage,
  the unstable entry and the term of every index \<open>i \<le> committed\<close> as they were.
\<close>

theorem contiguous_append_keeps_committed:
  "(\<not> lt < leaderTerm l \<longrightarrow> matchTerm l prevIndex prevTerm = Inr True \<longrightarrow>
    findConflict l ents = Inr ci \<longrightarrow> 0 < ci \<longrightarrow> ci \<le> committed l \<longrightarrow>
      maybeAppend l lt prevIndex prevTerm commit ents
        = Inl (ConflictWithCommitted ci (committed l))) \<and>
   (chain l \<longrightarrow> coherent l \<longrightarrow>
    contiguous prevIndex ents \<longrightarrow> unat prevIndex + length ents + 1 < 2 ^ 64 \<longrightarrow>
    maybeAppend l lt prevIndex prevTerm commit ents = Inr (l', n, ok) \<longrightarrow>
    i \<le> committed l \<longrightarrow>
      storage l' = storage l \<and>
      unstableEntry (unstable l') i = unstableEntry (unstable l) i \<and>
      raftLog_term l' i = raftLog_term l i)"
proof -
  have fatal: "\<not> lt < leaderTerm l \<longrightarrow> matchTerm l prevIndex prevTerm = Inr True \<longrightarrow>
    findConflict l ents = Inr ci \<longrightarrow> 0 < ci \<longrightarrow> ci \<le> committed l \<longrightarrow>
      maybeAppend l lt prevIndex prevTerm commit ents
        = Inl (ConflictWithCommitted ci (committed l))"
    by (simp add: maybeAppend_def word_greater_zero_iff)
  have kept: "chain l \<longrightarrow> coherent l \<longrightarrow>
    contiguous prevIndex ents \<longrightarrow> unat prevIndex + length ents + 1 < 2 ^ 64 \<longrightarrow>
    maybeAppend l lt prevIndex prevTerm commit ents = Inr (l', n, ok) \<longrightarrow>
    i \<le> committed l \<longrightarrow>
      storage l' = storage l \<and>
      unstableEntry (unstable l') i = unstableEntry (unstable l) i \<and>
      raftLog_term l' i = raftLog_term l i"
    using maybeAppend_effect [of l prevIndex ents lt prevTerm commit l' n ok] by blast
  from fatal kept show ?thesis by blast
qed

text \<open>
  A conflict at index 3 with \<open>committed = 3\<close> is a panic. In scenario S1 of the
  specification the entries 2 and 3 are replaced above \<open>committed = 1\<close>, and the
  term of index 1 stays 1.
\<close>

theorem contiguous_append_example:
  "maybeAppend (exampleLog [ent 1 1, ent 2 1, ent 3 1] 1 3) 2 2 1 3 [ent 3 2, ent 4 2]
     = Inl (ConflictWithCommitted 3 3) \<and>
   raftLog_term ((exampleLog [ent 1 1, ent 2 1, ent 3 1] 1 1)
            \<lparr>unstable := \<lparr>snapshot = None, entries = [ent 2 2, ent 3 2, ent 4 2], offset = 2,
                          snapshotInProgress = False, offsetInProgress = 2\<rparr>,
             leaderTerm := 2, committed := 2\<rparr>) 1
     = raftLog_term (exampleLog [ent 1 1, ent 2 1, ent 3 1] 1 1) 1 \<and>
   raftLog_term (exampleLog [ent 1 1, ent 2 1, ent 3 1] 1 1) 1 = Inr (Inr 1)"
proof -
  let ?E = "[ent 1 1, ent 2 1, ent 3 1]"
  let ?L = "exampleLog ?E 1 1"
  let ?L' = "?L\<lparr>unstable := \<lparr>snapshot = None, entries = [ent 2 2, ent 3 2, ent 4 2], offset = 2,
                          snapshotInProgress = False, offsetInProgress = 2\<rparr>,
             leaderTerm := 2, committed := 2\<rparr>"
  have f: "\<not> 2 < leaderTerm (exampleLog ?E 1 3)"
    "matchTerm (exampleLog ?E 1 3) 2 1 = Inr True"
    "findConflict (exampleLog ?E 1 3) [ent 3 2, ent 4 2] = Inr 3"
    "(0::u64) < 3" "3 \<le> committed (exampleLog ?E 1 3)"
    "committed (exampleLog ?E 1 3) = 3"
    by (simp_all add: ex_defs)
  from contiguous_append_keeps_committed [THEN conjunct1, rule_format, OF f(1-5), of 3] f(6)
  have r1: "maybeAppend (exampleLog ?E 1 3) 2 2 1 3 [ent 3 2, ent 4 2]
     = Inl (ConflictWithCommitted 3 3)" by simp
  have k: "chain ?L" "coherent ?L" "contiguous 1 [ent 2 2, ent 3 2, ent 4 2]"
    "unat (1::u64) + length [ent 2 2, ent 3 2, ent 4 2] + 1 < 2 ^ 64"
    "maybeAppend ?L 2 1 1 2 [ent 2 2, ent 3 2, ent 4 2] = Inr (?L', 4, True)"
    "1 \<le> committed ?L"
    by (simp_all add: ex_defs op_defs)
  from contiguous_append_keeps_committed [THEN conjunct2, rule_format, OF k]
  have r2: "raftLog_term ?L' 1 = raftLog_term ?L 1" by simp
  have r3: "raftLog_term ?L 1 = Inr (Inr 1)" by (simp add: ex_defs)
  from r1 r2 r3 show ?thesis by blast
qed

text \<open>
  C1. A first conflicting index \<open>ci\<close> with \<open>0 < ci \<le> committed\<close> is a panic of
  \<open>maybeAppend\<close>, but an accepted append can still replace a committed entry.
  \<open>maybeAppend\<close> does not check the indices of the entries, and the guard of
  \<open>append\<close>, \<open>ents[0].Index - 1 < committed\<close>, wraps around for an entry with index 0.
  In the log with the entries (1,1), (2,1), (3,1) (index, term) and
  \<open>committed = 1\<close>, the call \<open>maybeAppend(9, 1, 1, 0, [(3,9), (0,5), (0,6)])\<close> finds
  the conflict at index 3, above \<open>committed\<close>, and hands the entries (0,5), (0,6)
  to \<open>append\<close>; the guard there computes the largest 64-bit value, which is not
  below \<open>committed\<close>; the call returns \<open>(4, true)\<close>, the unstable buffer starts at
  index 0, and the term of the committed index 1 has changed from 1 to 6.
\<close>

theorem committed_entry_replaced:
  "committed (exampleLog [ent 1 1, ent 2 1, ent 3 1] 1 1) = 1 \<and>
   chain (exampleLog [ent 1 1, ent 2 1, ent 3 1] 1 1) \<and>
   coherent (exampleLog [ent 1 1, ent 2 1, ent 3 1] 1 1) \<and>
   raftLog_term (exampleLog [ent 1 1, ent 2 1, ent 3 1] 1 1) 1 = Inr (Inr 1) \<and>
   findConflict (exampleLog [ent 1 1, ent 2 1, ent 3 1] 1 1) [ent 3 9, ent 0 5, ent 0 6] = Inr 3 \<and>
   Index (ent 0 5) - 1 = - 1 \<and>
   \<not> Index (ent 0 5) - 1 < committed (exampleLog [ent 1 1, ent 2 1, ent 3 1] 1 1) \<and>
   maybeAppend (exampleLog [ent 1 1, ent 2 1, ent 3 1] 1 1) 9 1 1 0 [ent 3 9, ent 0 5, ent 0 6]
     = Inr ((exampleLog [ent 1 1, ent 2 1, ent 3 1] 1 1)
              \<lparr>unstable := \<lparr>snapshot = None, entries = [ent 0 5, ent 0 6], offset = 0,
                            snapshotInProgress = False, offsetInProgress = 0\<rparr>,
               leaderTerm := 9\<rparr>, 4, True) \<and>
   raftLog_term ((exampleLog [ent 1 1, ent 2 1, ent 3 1] 1 1)
              \<lparr>unstable := \<lparr>snapshot = None, entries = [ent 0 5, ent 0 6], offset = 0,
                            snapshotInProgress = False, offsetInProgress = 0\<rparr>,
               leaderTerm := 9\<rparr>) 1 = Inr (Inr 6)"
  by (simp add: ex_defs op_defs)

subsection \<open>The chain of cursors\<close>

text \<open>
  The log built by \<open>newLogWithSize\<close> over a storage with
  \<open>1 \<le> FirstIndex \<le> LastIndex + 1\<close> has its three cursors at \<open>FirstIndex - 1\<close> and
  satisfies \<open>applied \<le> applying \<le> committed \<le> lastIndex()\<close> and \<open>coherent\<close>. Both
  are preserved by every returning call of \<open>commitTo\<close>, \<open>maybeCommit\<close> and
  \<open>appliedTo\<close>; of \<open>acceptApplying(i, ...)\<close> when \<open>applied \<le> i\<close>; of \<open>restore(s)\<close> when
  the snapshot is not below \<open>applying\<close>; and, with the unstable buffer as the
  specification describes it, of \<open>stableTo(i, t)\<close> when the storage has last index
  \<open>i\<close> in case \<open>i\<close> is the last index of the log; of \<open>append\<close> when the entries
  start at an index in \<open>[1, lastIndex() + 1]\<close>; and of \<open>maybeAppend\<close> when the
  entries have consecutive indices after \<open>prevIndex\<close>. Indices stay below the
  largest 64-bit value.
\<close>

theorem chain_preserved:
  "(newLogWithSize (Some st) maxSize = Inr l0 \<longrightarrow>
    storage_FirstIndex st = Inr fi \<longrightarrow> storage_LastIndex st = Inr la \<longrightarrow>
    1 \<le> fi \<longrightarrow> fi \<le> la + 1 \<longrightarrow> la < - 1 \<longrightarrow>
      chain l0 \<and> coherent l0 \<and>
      applied l0 = fi - 1 \<and> applying l0 = fi - 1 \<and> committed l0 = fi - 1) \<and>
   (chain l \<longrightarrow> coherent l \<longrightarrow>
      (commitTo l lt tocommit = Inr l1 \<longrightarrow> chain l1 \<and> coherent l1) \<and>
      (maybeCommit l lt maxIndex t = Inr (l2, b) \<longrightarrow> chain l2 \<and> coherent l2) \<and>
      (appliedTo l i sz = Inr l3 \<longrightarrow> chain l3 \<and> coherent l3) \<and>
      (applied l \<le> i \<longrightarrow> acceptApplying l i sz allowUnstable = Inr l4 \<longrightarrow>
         chain l4 \<and> coherent l4) \<and>
      (applying l \<le> Metadata_Index s \<longrightarrow> Metadata_Index s < - 1 \<longrightarrow>
         chain (restore l s) \<and> coherent (restore l s)) \<and>
      ((lastIndex l = Inr i \<longrightarrow> storage_LastIndex (storage l) = Inr i) \<longrightarrow>
         chain (stableTo l i t) \<and> coherent (stableTo l i t)) \<and>
      (lastIndex l = Inr li \<longrightarrow>
       (ents \<noteq> [] \<longrightarrow> 0 < Index (hd ents) \<and> Index (hd ents) \<le> li + 1 \<and>
          unat (Index (hd ents)) + length ents < 2 ^ 64) \<longrightarrow>
       raftLog_append l lt ents = Inr (l5, r) \<longrightarrow> chain l5 \<and> coherent l5) \<and>
      (contiguous prevIndex ents \<longrightarrow> unat prevIndex + length ents + 1 < 2 ^ 64 \<longrightarrow>
       maybeAppend l lt prevIndex prevTerm commit ents = Inr (l6, n, ok) \<longrightarrow>
         chain l6 \<and> coherent l6))"
proof -
  have init: "newLogWithSize (Some st) maxSize = Inr l0 \<longrightarrow>
    storage_FirstIndex st = Inr fi \<longrightarrow> storage_LastIndex st = Inr la \<longrightarrow>
    1 \<le> fi \<longrightarrow> fi \<le> la + 1 \<longrightarrow> la < - 1 \<longrightarrow>
      chain l0 \<and> coherent l0 \<and>
      applied l0 = fi - 1 \<and> applying l0 = fi - 1 \<and> committed l0 = fi - 1"
    using newLogWithSize_chain_coherent by blast
  have step: "(commitTo l lt tocommit = Inr l1 \<longrightarrow> chain l1 \<and> coherent l1) \<and>
      (maybeCommit l lt maxIndex t = Inr (l2, b) \<longrightarrow> chain l2 \<and> coherent l2) \<and>
      (appliedTo l i sz = Inr l3 \<longrightarrow> chain l3 \<and> coherent l3) \<and>
      (applied l \<le> i \<longrightarrow> acceptApplying l i sz allowUnstable = Inr l4 \<longrightarrow>
         chain l4 \<and> coherent l4) \<and>
      (applying l \<le> Metadata_Index s \<longrightarrow> Metadata_Index s < - 1 \<longrightarrow>
         chain (restore l s) \<and> coherent (restore l s)) \<and>
      ((lastIndex l = Inr i \<longrightarrow> storage_LastIndex (storage l) = Inr i) \<longrightarrow>
         chain (stableTo l i t) \<and> coherent (stableTo l i t)) \<and>
      (lastIndex l = Inr li \<longrightarrow>
       (ents \<noteq> [] \<longrightarrow> 0 < Index (hd ents) \<and> Index (hd ents) \<le> li + 1 \<and>
          unat (Index (hd ents)) + length ents < 2 ^ 64) \<longrightarrow>
       raftLog_append l lt ents = Inr (l5, r) \<longrightarrow> chain l5 \<and> coherent l5) \<and>
      (contiguous prevIndex ents \<longrightarrow> unat prevIndex + length ents + 1 < 2 ^ 64 \<longrightarrow>
       maybeAppend l lt prevIndex prevTerm commit ents = Inr (l6, n, ok) \<longrightarrow>
         chain l6 \<and> coherent l6)"
    if v: "chain l" "coherent l"
  proof (intro conjI impI)
    assume "commitTo l lt tocommit = Inr l1"
    from commitTo_chain_coherent [OF v this] show "chain l1" "coherent l1" by simp_all
  next
    assume "maybeCommit l lt maxIndex t = Inr (l2, b)"
    from maybeCommit_chain_coherent [OF v this] show "chain l2" "coherent l2" by simp_all
  next
    assume "appliedTo l i sz = Inr l3"
    from appliedTo_chain_coherent [OF v this] show "chain l3" "coherent l3" by simp_all
  next
    assume "applied l \<le> i" "acceptApplying l i sz allowUnstable = Inr l4"
    from acceptApplying_chain_coherent [OF v this] show "chain l4" "coherent l4" by simp_all
  next
    assume "applying l \<le> Metadata_Index s" "Metadata_Index s < - 1"
    from restore_chain_coherent [OF v(1) this]
    show "chain (restore l s)" "coherent (restore l s)" by simp_all
  next
    assume "lastIndex l = Inr i \<longrightarrow> storage_LastIndex (storage l) = Inr i"
    from stableTo_chain_coherent [OF v this]
    show "chain (stableTo l i t)" "coherent (stableTo l i t)" by simp_all
  next
    assume a: "lastIndex l = Inr li"
      "ents \<noteq> [] \<longrightarrow> 0 < Index (hd ents) \<and> Index (hd ents) \<le> li + 1 \<and>
          unat (Index (hd ents)) + length ents < 2 ^ 64"
      "raftLog_append l lt ents = Inr (l5, r)"
    from append_chain_coherent [OF v a] show "chain l5" "coherent l5" by simp_all
  next
    assume a: "contiguous prevIndex ents" "unat prevIndex + length ents + 1 < 2 ^ 64"
      "maybeAppend l lt prevIndex prevTerm commit ents = Inr (l6, n, ok)"
    from maybeAppend_effect [OF v a] show "chain l6" "coherent l6" by simp_all
  qed
  from init step show ?thesis by blast
qed

text \<open>
  Every operation at a concrete log. The log constructed over three stored
  entries; a commit to 3 and a \<open>maybeCommit\<close> to 2; \<open>acceptApplying(2)\<close> and then
  \<open>appliedTo(1)\<close>; a restore of a snapshot at index 10; an \<open>append\<close> of entry 4;
  the \<open>maybeAppend\<close> of scenario S1; and \<open>stableTo(4, 2)\<close> once the storage holds
  the entries through index 4.
\<close>

theorem chain_preserved_witness:
  "chain (exampleLog [ent 1 1, ent 2 1, ent 3 1] 1 0) \<and>
   coherent (exampleLog [ent 1 1, ent 2 1, ent 3 1] 1 0) \<and>
   chain ((exampleLog [ent 1 1, ent 2 1, ent 3 1] 1 0)\<lparr>committed := 3\<rparr>) \<and>
   chain ((exampleLog [ent 1 1, ent 2 1, ent 3 1] 1 0)\<lparr>committed := 2\<rparr>) \<and>
   chain ((exampleLog [ent 1 1, ent 2 1, ent 3 1] 1 0)
            \<lparr>committed := 3, applying := 2, applyingEntsPaused := True\<rparr>) \<and>
   chain ((exampleLog [ent 1 1, ent 2 1, ent 3 1] 1 0)
            \<lparr>committed := 3, applying := 2, applied := 1\<rparr>) \<and>
   chain (restore (exampleLog [ent 1 1, ent 2 1, ent 3 1] 1 0)
            \<lparr>Metadata_Index = 10, Metadata_Term = 7, Snapshot_Data = []\<rparr>) \<and>
   chain ((exampleLog [ent 1 1, ent 2 1, ent 3 1] 1 0)
            \<lparr>unstable := \<lparr>snapshot = None, entries = [ent 4 1], offset = 4,
                          snapshotInProgress = False, offsetInProgress = 4\<rparr>\<rparr>) \<and>
   chain ((exampleLog [ent 1 1, ent 2 1, ent 3 1] 1 0)
            \<lparr>unstable := \<lparr>snapshot = None, entries = [ent 2 2, ent 3 2, ent 4 2], offset = 2,
                          snapshotInProgress = False, offsetInProgress = 2\<rparr>,
             leaderTerm := 2, committed := 2\<rparr>) \<and>
   chain ((exampleLog [ent 1 1, ent 2 1, ent 3 1] 1 0)
            \<lparr>storage := exampleStorage [ent 1 1, ent 2 2, ent 3 2, ent 4 2],
             unstable := \<lparr>snapshot = None, entries = [], offset = 5,
                          snapshotInProgress = False, offsetInProgress = 5\<rparr>,
             leaderTerm := 2, committed := 2\<rparr>)"
proof -
  let ?E = "[ent 1 1, ent 2 1, ent 3 1]"
  let ?L = "exampleLog ?E 1 0"
  let ?s = "\<lparr>Metadata_Index = 10, Metadata_Term = 7, Snapshot_Data = []\<rparr>"
  let ?A = "[ent 2 2, ent 3 2, ent 4 2]"
  let ?M = "?L\<lparr>committed := 3\<rparr>"
  let ?N = "?L\<lparr>committed := 3, applying := 2, applyingEntsPaused := True\<rparr>"
  let ?S = "?L\<lparr>storage := exampleStorage [ent 1 1, ent 2 2, ent 3 2, ent 4 2],
              unstable := \<lparr>snapshot = None, entries = ?A, offset = 2,
                           snapshotInProgress = False, offsetInProgress = 2\<rparr>,
              leaderTerm := 2, committed := 2\<rparr>"
  have new: "newLogWithSize (Some (exampleStorage ?E)) noLimit = Inr ?L"
    by (simp add: newLogWithSize_def exampleLog_def exampleStorage_def ent_def)
  have st: "storage_FirstIndex (exampleStorage ?E) = Inr 1"
    "storage_LastIndex (exampleStorage ?E) = Inr 3"
    "(1::u64) \<le> 1" "(1::u64) \<le> 3 + 1" "(3::u64) < - 1"
    by (simp_all add: exampleStorage_def)
  from chain_preserved [THEN conjunct1, of "exampleStorage ?E" noLimit ?L 1 3] new st
  have v: "chain ?L" "coherent ?L" by blast+
  note step = chain_preserved [THEN conjunct2, rule_format, OF v]
  have c: "commitTo ?L 1 3 = Inr ?M"
    by (simp add: ex_defs op_defs)
  from step [THEN conjunct1, rule_format, OF c]
  have vM: "chain ?M" "coherent ?M" by simp_all
  have mc: "maybeCommit ?L 1 2 1 = Inr (?L\<lparr>committed := 2\<rparr>, True)"
    by (simp add: ex_defs op_defs maybeCommit_def)
  from step [THEN conjunct2, THEN conjunct1, rule_format, OF mc]
  have r2: "chain (?L\<lparr>committed := 2\<rparr>)" by simp
  have aa: "applied ?M \<le> 2" "acceptApplying ?M 2 0 True = Inr ?N"
    by (simp_all add: ex_defs op_defs)
  from chain_preserved [THEN conjunct2, rule_format, OF vM, THEN conjunct2, THEN conjunct2,
      THEN conjunct2, THEN conjunct1, rule_format, OF aa]
  have vN: "chain ?N" "coherent ?N" by simp_all
  have ap: "appliedTo ?N 1 0 = Inr (?L\<lparr>committed := 3, applying := 2, applied := 1\<rparr>)"
    by (simp add: ex_defs op_defs)
  from chain_preserved [THEN conjunct2, rule_format, OF vN, THEN conjunct2, THEN conjunct2,
      THEN conjunct1, rule_format, OF ap]
  have r4: "chain (?L\<lparr>committed := 3, applying := 2, applied := 1\<rparr>)" by simp
  have r: "applying ?L \<le> Metadata_Index ?s" "Metadata_Index ?s < - 1"
    by (simp_all add: exampleLog_def)
  from step [THEN conjunct2, THEN conjunct2, THEN conjunct2, THEN conjunct2, THEN conjunct1,
      rule_format, OF r]
  have r5: "chain (restore ?L ?s)" by simp
  have a: "lastIndex ?L = Inr 3"
    "0 < Index (hd [ent 4 1]) \<and> Index (hd [ent 4 1]) \<le> 3 + 1 \<and>
       unat (Index (hd [ent 4 1])) + length [ent 4 1] < 2 ^ 64"
    "raftLog_append ?L 1 [ent 4 1] =
       Inr (?L\<lparr>unstable := \<lparr>snapshot = None, entries = [ent 4 1], offset = 4,
                              snapshotInProgress = False, offsetInProgress = 4\<rparr>\<rparr>, 4)"
    by (simp_all add: ex_defs op_defs)
  from step [THEN conjunct2, THEN conjunct2, THEN conjunct2, THEN conjunct2, THEN conjunct2,
      THEN conjunct2, THEN conjunct1, rule_format, OF a]
  have r6: "chain (?L\<lparr>unstable := \<lparr>snapshot = None, entries = [ent 4 1], offset = 4,
                                   snapshotInProgress = False, offsetInProgress = 4\<rparr>\<rparr>)"
    by simp
  have m: "contiguous 1 ?A" "unat (1::u64) + length ?A + 1 < 2 ^ 64"
    "maybeAppend ?L 2 1 1 2 ?A =
       Inr (?L\<lparr>unstable := \<lparr>snapshot = None, entries = ?A, offset = 2,
                              snapshotInProgress = False, offsetInProgress = 2\<rparr>,
                 leaderTerm := 2, committed := 2\<rparr>, 4, True)"
    by (simp_all add: ex_defs op_defs)
  from step [THEN conjunct2, THEN conjunct2, THEN conjunct2, THEN conjunct2, THEN conjunct2,
      THEN conjunct2, THEN conjunct2, rule_format, OF m]
  have r7: "chain (?L\<lparr>unstable := \<lparr>snapshot = None, entries = ?A, offset = 2,
                                   snapshotInProgress = False, offsetInProgress = 2\<rparr>,
                      leaderTerm := 2, committed := 2\<rparr>)" by simp
  have vS: "chain ?S" "coherent ?S"
    by (simp_all add: ex_defs op_defs)
  have s: "storage_LastIndex (storage ?S) = Inr 4"
    "lastIndex ?S = Inr 4"
    "stableTo ?S 4 2 =
       ?L\<lparr>storage := exampleStorage [ent 1 1, ent 2 2, ent 3 2, ent 4 2],
           unstable := \<lparr>snapshot = None, entries = [], offset = 5,
                        snapshotInProgress = False, offsetInProgress = 5\<rparr>,
           leaderTerm := 2, committed := 2\<rparr>"
    by (simp_all add: ex_defs op_defs stableTo_def unstable_stableTo_def)
  from chain_preserved [THEN conjunct2, rule_format, OF vS, THEN conjunct2, THEN conjunct2,
      THEN conjunct2, THEN conjunct2, THEN conjunct2, THEN conjunct1, rule_format, OF s(1)]
  have r8: "chain (stableTo ?S 4 2)" by simp
  from v vM r2 vN r4 r5 r6 r7 r8 [unfolded s(3)] show ?thesis by blast
qed

text \<open>
  C3. The chain \<open>applied \<le> applying \<le> committed \<le> lastIndex()\<close> does not survive
  \<open>acceptApplying\<close>, which checks its argument against \<open>committed\<close> only. In the log
  with the entries 1 to 3 and all three cursors at 3 the chain holds; the call
  \<open>acceptApplying(1, 0, true)\<close> passes the check \<open>committed < i\<close> and returns with
  \<open>applying = 1\<close> below \<open>applied = 3\<close>. The panic message of \<open>acceptApplying\<close> names
  the range from the previous \<open>applying\<close> to \<open>committed\<close>, the field \<open>applying\<close> is
  documented as incremented and with the invariant \<open>applied \<le> applying\<close>, and the
  sibling \<open>appliedTo\<close> refuses the same index 1 with a panic.
\<close>

theorem acceptApplying_breaks_chain:
  "chain (exampleLog [ent 1 1, ent 2 1, ent 3 1] 1 3) \<and>
   applied (exampleLog [ent 1 1, ent 2 1, ent 3 1] 1 3) = 3 \<and>
   \<not> committed (exampleLog [ent 1 1, ent 2 1, ent 3 1] 1 3) < 1 \<and>
   acceptApplying (exampleLog [ent 1 1, ent 2 1, ent 3 1] 1 3) 1 0 True =
     Inr ((exampleLog [ent 1 1, ent 2 1, ent 3 1] 1 3)
            \<lparr>applying := 1, applyingEntsPaused := True\<rparr>) \<and>
   applying ((exampleLog [ent 1 1, ent 2 1, ent 3 1] 1 3)
               \<lparr>applying := 1, applyingEntsPaused := True\<rparr>)
     < applied ((exampleLog [ent 1 1, ent 2 1, ent 3 1] 1 3)
                 \<lparr>applying := 1, applyingEntsPaused := True\<rparr>) \<and>
   \<not> chain ((exampleLog [ent 1 1, ent 2 1, ent 3 1] 1 3)
              \<lparr>applying := 1, applyingEntsPaused := True\<rparr>) \<and>
   appliedTo (exampleLog [ent 1 1, ent 2 1, ent 3 1] 1 3) 1 0 = Inl (AppliedOutOfRange 1 3 3)"
  by (simp add: ex_defs op_defs)

end
